theory Spec2Isabelle
  imports Main
begin

section \<open>Values of the JavaScript runtime\<close>

text \<open>
  The values the class \<open>LanguageManager\<close> of \<open>src/index.js\<close> handles: what
  \<open>JSON.parse\<close> yields for a resource file, and what a caller passes as the
  replacement arguments of \<open>get\<close>. A Number is carried as the text that the runtime's
  number-to-string conversion gives for it, the only operation the class applies to a
  number. An object is carried as the list of its own enumerable entries, in the order
  \<open>Object.entries\<close> enumerates them; a lookup of an own property is \<open>map_of\<close>.
  \<open>Obj\<close> is an object whose prototype is \<open>Object.prototype\<close>, as an object literal
  or \<open>JSON.parse\<close> makes it; \<open>NullProto\<close> is an object without a prototype, as
  \<open>Object.create(null)\<close> makes it. Strings are lists of characters. A name of the
  source that starts with an underscore (\<open>_flatten\<close>, \<open>_replacePlaceholders\<close>,
  \<open>_loadFile\<close>) is written without it.
\<close>

datatype jsval =
    Undefined
  | Null
  | Bool bool
  | Num string
  | Str string
  | Arr "jsval list"
  | Obj "(string \<times> jsval) list"
  | NullProto "(string \<times> jsval) list"

text \<open>
  What the class can see thrown: \<open>new Error(message)\<close>, a \<open>TypeError\<close> or a
  \<open>SyntaxError\<close> of the runtime, and a file-system error with its \<open>code\<close>.
\<close>

datatype error =
    Error string
  | TypeError
  | SyntaxError
  | SystemError string

type_synonym 'a result = "error + 'a"

text \<open>The flat resource map of one locale: flat key to string.\<close>

type_synonym flatmap = "string \<rightharpoonup> string"

subsection \<open>Conversion to a string\<close>

text \<open>\<open>Array.prototype.join\<close> on elements that are already strings.\<close>

fun join :: "string \<Rightarrow> string list \<Rightarrow> string" where
  "join sep [] = []"
| "join sep [x] = x"
| "join sep (x # y # ys) = x @ sep @ join sep (y # ys)"

text \<open>Running a list of conversions, stopping at the first one that throws.\<close>

fun sequence :: "'a result list \<Rightarrow> 'a list result" where
  "sequence [] = Inr []"
| "sequence (Inl e # rs) = Inl e"
| "sequence (Inr x # rs) = (case sequence rs of Inl e \<Rightarrow> Inl e | Inr xs \<Rightarrow> Inr (x # xs))"

text \<open>
  \<open>String(v)\<close>. An array converts through \<open>join(',')\<close>, where \<open>undefined\<close> and
  \<open>null\<close> elements give the empty string. A plain object converts through the
  inherited \<open>toString\<close> to \<open>[object Object]\<close>; when it has an own property
  \<open>toString\<close> (never callable for the values above) neither \<open>toString\<close> nor
  \<open>valueOf\<close> yields a primitive and the conversion throws a \<open>TypeError\<close>. An
  object without a prototype inherits neither method, and the conversion throws.
\<close>

fun String :: "jsval \<Rightarrow> string result" where
  "String Undefined = Inr ''undefined''"
| "String Null = Inr ''null''"
| "String (Bool b) = Inr (if b then ''true'' else ''false'')"
| "String (Num n) = Inr n"
| "String (Str s) = Inr s"
| "String (Arr xs) =
     (case sequence (map (\<lambda>x. case x of Undefined \<Rightarrow> Inr [] | Null \<Rightarrow> Inr [] | _ \<Rightarrow> String x) xs) of
        Inl e \<Rightarrow> Inl e
      | Inr ss \<Rightarrow> Inr (join '','' ss))"
| "String (Obj kvs) =
     (if map_of kvs ''toString'' = None then Inr ''[object Object]'' else Inl TypeError)"
| "String (NullProto kvs) = Inl TypeError"

text \<open>\<open>v ?? ''\<close>: the empty string in place of \<open>undefined\<close> and \<open>null\<close>.\<close>

fun or_empty :: "jsval \<Rightarrow> jsval" where
  "or_empty Undefined = Str []"
| "or_empty Null = Str []"
| "or_empty v = v"

subsection \<open>Object.entries\<close>

text \<open>Decimal text of an array index.\<close>

fun dec :: "nat \<Rightarrow> string" where
  "dec n = (if n < 10 then [''0123456789'' ! n] else dec (n div 10) @ [''0123456789'' ! (n mod 10)])"

declare dec.simps [simp del]

text \<open>
  \<open>Object.entries(v)\<close>: throws on \<open>undefined\<close> and \<open>null\<close>, is empty on a boolean
  or a number, enumerates the indices of a string or an array, and the entries of an
  object.
\<close>

fun Object_entries :: "jsval \<Rightarrow> (string \<times> jsval) list result" where
  "Object_entries Undefined = Inl TypeError"
| "Object_entries Null = Inl TypeError"
| "Object_entries (Bool b) = Inr []"
| "Object_entries (Num n) = Inr []"
| "Object_entries (Str s) = Inr (map (\<lambda>i. (dec i, Str [s ! i])) [0 ..< length s])"
| "Object_entries (Arr xs) = Inr (map (\<lambda>i. (dec i, xs ! i)) [0 ..< length xs])"
| "Object_entries (Obj kvs) = Inr kvs"
| "Object_entries (NullProto kvs) = Inr kvs"

section \<open>Flattener\<close>

text \<open>
  The loop of \<open>_flatten\<close> (index.js, lines 50 to 62) over the entries still to visit,
  with \<open>result\<close> as built so far. \<open>typeof value === 'object' && value !== null &&
  !Array.isArray(value)\<close> holds of the two kinds of objects only; the recursive call
  starts from an empty result, which \<open>Object.assign\<close> then copies over \<open>result\<close>. A
  conversion that throws ends the loop.
\<close>

function flatten_entries ::
  "(string \<times> jsval) list \<Rightarrow> string \<Rightarrow> string \<Rightarrow> flatmap \<Rightarrow> flatmap result" where
  "flatten_entries [] separator parentKey result = Inr result"
| "flatten_entries ((key, value) # rest) separator parentKey result =
     (let fullKey = (if parentKey \<noteq> [] then parentKey @ separator @ key else key) in
      case value of
        Obj kvs \<Rightarrow>
          (case flatten_entries kvs separator fullKey Map.empty of
             Inl e \<Rightarrow> Inl e
           | Inr sub \<Rightarrow> flatten_entries rest separator parentKey (result ++ sub))
      | NullProto kvs \<Rightarrow>
          (case flatten_entries kvs separator fullKey Map.empty of
             Inl e \<Rightarrow> Inl e
           | Inr sub \<Rightarrow> flatten_entries rest separator parentKey (result ++ sub))
      | _ \<Rightarrow>
          (case String (or_empty value) of
             Inl e \<Rightarrow> Inl e
           | Inr s \<Rightarrow> flatten_entries rest separator parentKey (result(fullKey \<mapsto> s))))"
  by pat_completeness auto
termination
  by (relation "measure (\<lambda>(es, _, _, _). size_list (size_prod (\<lambda>_. 0) size) es)") auto

definition flatten :: "jsval \<Rightarrow> string \<Rightarrow> string \<Rightarrow> flatmap result" where
  "flatten obj separator parentKey =
     (case Object_entries obj of
        Inl e \<Rightarrow> Inl e
      | Inr es \<Rightarrow> flatten_entries es separator parentKey Map.empty)"

section \<open>Template engine\<close>

text \<open>The class \<open>\w\<close> of the regular expression: letters, digits and the underscore.\<close>

definition is_word :: "char \<Rightarrow> bool" where
  "is_word c \<longleftrightarrow>
     c \<in> set ''abcdefghijklmnopqrstuvwxyzABCDEFGHIJKLMNOPQRSTUVWXYZ0123456789_''"

text \<open>
  \<open>template.replace(/{(\w+)}/g, f)\<close>: the template is scanned from the left; at an
  opening brace followed by the longest run of word characters, not empty, and a closing
  brace, the match is replaced by what \<open>f\<close> returns for the match and the run, and the
  scan goes on behind the match; any other character is copied. A callback that throws
  ends the replacement.
\<close>

function replace_tokens :: "(string \<Rightarrow> string \<Rightarrow> string result) \<Rightarrow> string \<Rightarrow> string result" where
  "replace_tokens f [] = Inr []"
| "replace_tokens f (c # cs) =
     (let key = takeWhile is_word cs; rest = dropWhile is_word cs in
      if c = CHR ''{'' \<and> key \<noteq> [] \<and> rest \<noteq> [] \<and> hd rest = CHR ''}'' then
        (case f (CHR ''{'' # key @ ''}'') key of
           Inl e \<Rightarrow> Inl e
         | Inr r \<Rightarrow>
             (case replace_tokens f (tl rest) of
                Inl e \<Rightarrow> Inl e
              | Inr out \<Rightarrow> Inr (r @ out)))
      else
        (case replace_tokens f cs of
           Inl e \<Rightarrow> Inl e
         | Inr out \<Rightarrow> Inr (c # out)))"
  by pat_completeness auto
termination
proof (relation "measure (\<lambda>(f, t). length t)", goal_cases)
  case (2 f c cs key rest r)
  have "length (tl (dropWhile is_word cs)) \<le> length (dropWhile is_word cs)"
    by simp
  also have "\<dots> \<le> length cs"
    by (rule length_dropWhile_le)
  finally show ?case
    using 2 by simp
qed simp_all

text \<open>
  The callback of \<open>_replacePlaceholders\<close> (index.js, lines 76 to 85): an identifier that
  is no own property of \<open>values\<close> gives the match back; an array is converted element by
  element with \<open>String(v ?? '')\<close> and joined with a comma and a space; any other value is
  converted with \<open>String(value ?? '')\<close>.
\<close>

definition array_text :: "jsval list \<Rightarrow> string result" where
  "array_text vs =
     (case sequence (map (\<lambda>v. String (or_empty v)) vs) of
        Inl e \<Rightarrow> Inl e
      | Inr ss \<Rightarrow> Inr (join '', '' ss))"

definition replacer :: "(string \<times> jsval) list \<Rightarrow> string \<Rightarrow> string \<Rightarrow> string result" where
  "replacer values match key =
     (case map_of values key of
        None \<Rightarrow> Inr match
      | Some value \<Rightarrow>
          (case value of
             Arr vs \<Rightarrow> array_text vs
           | _ \<Rightarrow> String (or_empty value)))"

text \<open>
  \<open>_replacePlaceholders\<close> (index.js, lines 71 to 86). The arguments are an object, given
  by its entries: \<open>!values\<close> is false of every object, and \<open>Object.keys(values).length
  === 0\<close> holds of the object without entries.
\<close>

definition replacePlaceholders :: "string \<Rightarrow> (string \<times> jsval) list \<Rightarrow> string result" where
  "replacePlaceholders template values =
     (if values = [] then Inr template else replace_tokens (replacer values) template)"

section \<open>Resource store\<close>

text \<open>
  The functions of Node.js the class calls, as they answer at one moment:
  \<open>stat_dir\<close> is \<open>statSync(dirPath)\<close> followed by \<open>isDirectory()\<close>, \<open>readdirSync\<close>
  lists the directory, \<open>statSync\<close> and \<open>readFileSync\<close> take the name of a file of the
  directory (the class joins it to the directory's path), \<open>JSON_parse\<close> is the parser,
  and \<open>basename\<close> is \<open>path.basename(filename, '.json')\<close>, the locale of a file.
\<close>

record node_env =
  stat_dir :: "bool result"
  readdirSync :: "string list result"
  statSync :: "string \<Rightarrow> unit result"
  readFileSync :: "string \<Rightarrow> string result"
  JSON_parse :: "string \<Rightarrow> jsval result"
  basename :: "string \<Rightarrow> string"

text \<open>What the class writes to the console, one constructor for each call.\<close>

datatype log =
    Loaded string
  | LoadError string error
  | DirError error
  | DebouncedReload string
  | IgnoredChange string
  | StatErrorChange string error
  | DebouncedNew string
  | DebouncedDeleted string
  | StatErrorRename string error

text \<open>
  The fields of a \<open>LanguageManager\<close>, with the part of the runtime it acts on: the
  pending timeouts (identifier to due time and to the event and filename its callback
  has captured), the next identifier \<open>setTimeout\<close> hands out, and the console.
\<close>

record manager =
  separator :: string
  languages :: "string \<rightharpoonup> flatmap"
  debounceMap :: "string \<rightharpoonup> nat"
  debounceDelay :: nat
  timers :: "nat \<rightharpoonup> nat \<times> string \<times> string"
  next_timer :: nat
  console :: "log list"

definition endsWith :: "string \<Rightarrow> string \<Rightarrow> bool" where
  "endsWith s suffix \<longleftrightarrow>
     length suffix \<le> length s \<and> drop (length s - length suffix) s = suffix"

definition console_log :: "log \<Rightarrow> manager \<Rightarrow> manager" where
  "console_log l s = s\<lparr>console := console s @ [l]\<rparr>"

text \<open>
  \<open>_loadFile\<close> (index.js, lines 93 to 106). Whatever the \<open>try\<close> block throws, from
  reading, parsing or flattening, goes to the \<open>catch\<close> block, which reports it and
  deletes the locale of the file from the table.
\<close>

definition read_file :: "node_env \<Rightarrow> string \<Rightarrow> string \<Rightarrow> flatmap result" where
  "read_file env sep filename =
     (case readFileSync env filename of
        Inl err \<Rightarrow> Inl err
      | Inr raw \<Rightarrow>
          (case JSON_parse env raw of
             Inl err \<Rightarrow> Inl err
           | Inr json \<Rightarrow> flatten json sep []))"

definition loadFile :: "node_env \<Rightarrow> string \<Rightarrow> manager \<Rightarrow> manager" where
  "loadFile env filename s =
     (case read_file env (separator s) filename of
        Inr flat \<Rightarrow>
          console_log (Loaded filename)
            (s\<lparr>languages := (languages s)(basename env filename \<mapsto> flat)\<rparr>)
      | Inl err \<Rightarrow>
          (console_log (LoadError filename err) s)
            \<lparr>languages := (languages s)(basename env filename := None)\<rparr>)"

text \<open>\<open>loadLanguages\<close> (index.js, lines 112 to 123) and its loop over the listing.\<close>

fun load_files :: "node_env \<Rightarrow> string list \<Rightarrow> manager \<Rightarrow> manager" where
  "load_files env [] s = s"
| "load_files env (file # files) s =
     load_files env files (if endsWith file ''.json'' then loadFile env file s else s)"

definition loadLanguages :: "node_env \<Rightarrow> manager \<Rightarrow> manager" where
  "loadLanguages env s =
     (case readdirSync env of
        Inl err \<Rightarrow> console_log (DirError err) s
      | Inr files \<Rightarrow> load_files env files s)"

section \<open>Change reconciler\<close>

definition clearTimeout :: "nat \<Rightarrow> manager \<Rightarrow> manager" where
  "clearTimeout i s = s\<lparr>timers := (timers s)(i := None)\<rparr>"

definition setTimeout :: "string \<times> string \<Rightarrow> nat \<Rightarrow> nat \<Rightarrow> manager \<Rightarrow> nat \<times> manager" where
  "setTimeout callback delay now s =
     (next_timer s,
      s\<lparr>timers := (timers s)(next_timer s \<mapsto> (now + delay, callback)),
        next_timer := Suc (next_timer s)\<rparr>)"

text \<open>
  The listener of \<open>watchDirectory\<close> (index.js, lines 131 to 183), called at time \<open>now\<close>
  with an event and a filename, which the runtime may leave out (\<open>None\<close>).
\<close>

definition on_watch :: "nat \<Rightarrow> string \<Rightarrow> string option \<Rightarrow> manager \<Rightarrow> manager" where
  "on_watch now event filename s =
     (case filename of
        None \<Rightarrow> s
      | Some fn \<Rightarrow>
          if fn \<noteq> [] \<and> endsWith fn ''.json'' then
            (let s1 = (case debounceMap s fn of Some i \<Rightarrow> clearTimeout i s | None \<Rightarrow> s);
                 (timeout, s2) = setTimeout (event, fn) (debounceDelay s1) now s1
             in s2\<lparr>debounceMap := (debounceMap s2)(fn \<mapsto> timeout)\<rparr>)
          else s)"

fun err_code :: "error \<Rightarrow> string option" where
  "err_code (SystemError c) = Some c"
| "err_code _ = None"

text \<open>
  The callback of the timeout (index.js, lines 142 to 179), with the event and the
  filename it has captured, run on the file system as it is when the timer fires.
\<close>

definition on_timeout :: "node_env \<Rightarrow> string \<Rightarrow> string \<Rightarrow> manager \<Rightarrow> manager" where
  "on_timeout env event filename s0 =
     (let s = s0\<lparr>debounceMap := (debounceMap s0)(filename := None)\<rparr> in
      if event = ''change'' then
        (case statSync env filename of
           Inr _ \<Rightarrow> loadFile env filename (console_log (DebouncedReload filename) s)
         | Inl err \<Rightarrow>
             if err_code err = Some ''ENOENT'' then console_log (IgnoredChange filename) s
             else console_log (StatErrorChange filename err) s)
      else if event = ''rename'' then
        (case statSync env filename of
           Inr _ \<Rightarrow> loadFile env filename (console_log (DebouncedNew filename) s)
         | Inl err \<Rightarrow>
             if err_code err = Some ''ENOENT'' then
               (console_log (DebouncedDeleted filename) s)
                 \<lparr>languages := (languages s)(basename env filename := None)\<rparr>
             else console_log (StatErrorRename filename err) s)
      else s)"

text \<open>
  The runtime fires a pending timeout once its delay has elapsed: the timeout leaves
  the pending ones and its callback runs. No result means the runtime cannot take this
  step (no such timeout is pending, or it is not due).
\<close>

definition fire :: "node_env \<Rightarrow> nat \<Rightarrow> nat \<Rightarrow> manager \<Rightarrow> manager option" where
  "fire env now i s =
     (case timers s i of
        None \<Rightarrow> None
      | Some (due, event, filename) \<Rightarrow>
          if now < due then None
          else Some (on_timeout env event filename (clearTimeout i s)))"

section \<open>Lookup facade\<close>

text \<open>\<open>get\<close> (index.js, lines 198 to 206).\<close>

definition locale_not_found :: "string \<Rightarrow> error" where
  "locale_not_found locale = Error (''Locale '' @ [CHR 0x27] @ locale @ [CHR 0x27] @ '' not found'')"

definition get :: "manager \<Rightarrow> string \<Rightarrow> string \<Rightarrow> (string \<times> jsval) list \<Rightarrow> string result" where
  "get s locale key args =
     (case languages s locale of
        None \<Rightarrow> Inl (locale_not_found locale)
      | Some translations \<Rightarrow>
          replacePlaceholders (case translations key of None \<Rightarrow> key | Some template \<Rightarrow> template) args)"

section \<open>Construction\<close>

text \<open>
  The constructor (index.js, lines 13 to 39). An error thrown for a path that is no
  directory has no \<open>code\<close> and is thrown again by the \<open>catch\<close> block. Registering
  the watcher changes none of the fields.
\<close>

definition initial :: "string \<Rightarrow> manager" where
  "initial sep =
     \<lparr>separator = sep, languages = Map.empty, debounceMap = Map.empty,
      debounceDelay = 100, timers = Map.empty, next_timer = 0, console = []\<rparr>"

definition new_LanguageManager :: "node_env \<Rightarrow> string \<Rightarrow> string \<Rightarrow> manager result" where
  "new_LanguageManager env dirPath sep =
     (case stat_dir env of
        Inl err \<Rightarrow>
          if err_code err = Some ''ENOENT'' then Inl (Error (''Directory does not exist: '' @ dirPath))
          else Inl err
      | Inr is_dir \<Rightarrow>
          if \<not> is_dir then Inl (Error (''Path exists but is not a directory: '' @ dirPath))
          else Inr (loadLanguages env (initial sep)))"

section \<open>The earlier template engine\<close>

text \<open>
  \<open>replacePlaceholders\<close> of the class \<open>Translator\<close> (the earlier version of the
  library kept beside test.js, lines 137 to 154): \<open>values.hasOwnProperty(key)\<close> calls
  the property of that name, which an own property of \<open>values\<close> shadows (and which is
  then no function); an element of an array that is neither a string nor a number gives
  the empty string; any other value is converted by its method \<open>toString\<close>, which
  \<open>undefined\<close> and \<open>null\<close> do not have.
\<close>

fun item_text :: "jsval \<Rightarrow> string" where
  "item_text (Str s) = s"
| "item_text (Num n) = n"
| "item_text _ = []"

fun toString :: "jsval \<Rightarrow> string result" where
  "toString Undefined = Inl TypeError"
| "toString Null = Inl TypeError"
| "toString v = String v"

definition Translator_replacer ::
  "(string \<times> jsval) list \<Rightarrow> string \<Rightarrow> string \<Rightarrow> string result" where
  "Translator_replacer values match key =
     (if map_of values ''hasOwnProperty'' \<noteq> None then Inl TypeError
      else
        (case map_of values key of
           None \<Rightarrow> Inr match
         | Some value \<Rightarrow>
             (case value of
                Arr vs \<Rightarrow> Inr (join '', '' (map item_text vs))
              | _ \<Rightarrow> toString value)))"

definition Translator_replacePlaceholders ::
  "string \<Rightarrow> (string \<times> jsval) list \<Rightarrow> string result" where
  "Translator_replacePlaceholders template values =
     replace_tokens (Translator_replacer values) template"

section \<open>Notions used to state the properties\<close>

text \<open>Whether the scan finds a token at a character \<open>c\<close> followed by \<open>cs\<close>.\<close>

definition token_at :: "char \<Rightarrow> string \<Rightarrow> bool" where
  "token_at c cs \<longleftrightarrow>
     c = CHR ''{'' \<and> takeWhile is_word cs \<noteq> [] \<and> dropWhile is_word cs \<noteq> [] \<and>
     hd (dropWhile is_word cs) = CHR ''}''"

text \<open>The identifiers of the tokens of a template, in the order of the scan.\<close>

function token_ids :: "string \<Rightarrow> string list" where
  "token_ids [] = []"
| "token_ids (c # cs) =
     (if token_at c cs then takeWhile is_word cs # token_ids (tl (dropWhile is_word cs))
      else token_ids cs)"
  by pat_completeness auto
termination
proof (relation "measure length", goal_cases)
  case (2 c cs)
  have "length (tl (dropWhile is_word cs)) \<le> length (dropWhile is_word cs)"
    by simp
  also have "\<dots> \<le> length cs"
    by (rule length_dropWhile_le)
  finally show ?case
    by simp
qed simp_all

text \<open>
  A token written out: the identifier between braces.
\<close>

definition token :: "string \<Rightarrow> string" where
  "token k = CHR ''{'' # k @ ''}''"

definition is_identifier :: "string \<Rightarrow> bool" where
  "is_identifier k \<longleftrightarrow> k \<noteq> [] \<and> (\<forall>c\<in>set k. is_word c)"

text \<open>
  The flat key of the specification: the flat key of the parent, the separator and the
  local key; a key of the root has no parent and stands as it is.
\<close>

fun flat_key :: "string option \<Rightarrow> string \<Rightarrow> string \<Rightarrow> string" where
  "flat_key None sep key = key"
| "flat_key (Some parent) sep key = parent @ sep @ key"

text \<open>
  The terminal (non-map) values of a tree, in the order of its entries, each with its
  flat key.
\<close>

function terminals ::
  "(string \<times> jsval) list \<Rightarrow> string \<Rightarrow> string option \<Rightarrow> (string \<times> jsval) list" where
  "terminals [] sep parent = []"
| "terminals ((key, value) # rest) sep parent =
     (case value of
        Obj kvs \<Rightarrow> terminals kvs sep (Some (flat_key parent sep key))
      | NullProto kvs \<Rightarrow> terminals kvs sep (Some (flat_key parent sep key))
      | _ \<Rightarrow> [(flat_key parent sep key, value)])
     @ terminals rest sep parent"
  by pat_completeness auto
termination
  by (relation "measure (\<lambda>(es, _, _). size_list (size_prod (\<lambda>_. 0) size) es)") auto

text \<open>
  The leaves the specification allows in a resource tree: a scalar (string, number,
  boolean or null) or an array of scalars.
\<close>

fun is_scalar :: "jsval \<Rightarrow> bool" where
  "is_scalar Null = True"
| "is_scalar (Bool b) = True"
| "is_scalar (Num n) = True"
| "is_scalar (Str s) = True"
| "is_scalar _ = False"

fun is_leaf :: "jsval \<Rightarrow> bool" where
  "is_leaf (Arr xs) = list_all is_scalar xs"
| "is_leaf v = is_scalar v"

fun is_map :: "jsval \<Rightarrow> bool" where
  "is_map (Obj kvs) = True"
| "is_map (NullProto kvs) = True"
| "is_map _ = False"

fun map_entries :: "jsval \<Rightarrow> (string \<times> jsval) list" where
  "map_entries (Obj kvs) = kvs"
| "map_entries (NullProto kvs) = kvs"
| "map_entries _ = []"

text \<open>The string \<open>_flatten\<close> stores for a leaf the specification allows.\<close>

fun scalar_text :: "jsval \<Rightarrow> string" where
  "scalar_text (Bool b) = (if b then ''true'' else ''false'')"
| "scalar_text (Num n) = n"
| "scalar_text (Str s) = s"
| "scalar_text _ = []"

fun leaf_text :: "jsval \<Rightarrow> string" where
  "leaf_text (Arr xs) = join '','' (map scalar_text xs)"
| "leaf_text v = scalar_text v"

text \<open>
  The values that are no object and hold none: \<open>undefined\<close>, \<open>null\<close>, booleans,
  numbers, strings, and arrays of such values.
\<close>

fun no_object :: "jsval \<Rightarrow> bool" where
  "no_object (Arr xs) = list_all no_object xs"
| "no_object (Obj kvs) = False"
| "no_object (NullProto kvs) = False"
| "no_object v = True"

text \<open>
  The elements of an array for which \<open>String(v ?? '')\<close> is the text of a string or of
  a number, or the empty string.
\<close>

fun string_number_or_nullish :: "jsval \<Rightarrow> bool" where
  "string_number_or_nullish Undefined = True"
| "string_number_or_nullish Null = True"
| "string_number_or_nullish (Num n) = True"
| "string_number_or_nullish (Str s) = True"
| "string_number_or_nullish _ = False"

text \<open>
  The pending timeouts are those the manager has registered: a pending timeout for a
  filename is the one \<open>debounceMap\<close> holds for it, and its identifier has been handed
  out.
\<close>

definition registered :: "manager \<Rightarrow> bool" where
  "registered s \<longleftrightarrow>
     (\<forall>i due event filename. timers s i = Some (due, event, filename) \<longrightarrow>
        debounceMap s filename = Some i \<and> i < next_timer s)"

text \<open>
  The states a manager can be in: the one its constructor returns, and those that the
  listener of the watcher and the firing of a pending timeout lead to.
\<close>

inductive reachable :: "manager \<Rightarrow> bool" where
  constructed: "new_LanguageManager env dirPath sep = Inr s \<Longrightarrow> reachable s"
| notified: "reachable s \<Longrightarrow> reachable (on_watch now event filename s)"
| fired: "reachable s \<Longrightarrow> fire env now i s = Some s' \<Longrightarrow> reachable s'"

section \<open>A directory of two resource files\<close>

text \<open>
  The directory \<open>testLanguages\<close> of the tests, with the two files \<open>en.json\<close> and
  \<open>fr.json\<close> that the comments of the earlier test script list, and beside them a file
  that is no resource file. The parser is given by what it answers on the two texts.
\<close>

definition en_json :: string where
  "en_json = ''{\"greeting\":\"Hello {name}!\",\"buttons\":{\"cancel\":\"Cancel\",\"confirm\":\"Confirm\"}}''"

definition fr_json :: string where
  "fr_json = ''{\"greeting\":\"Bonjour {name} !\",\"buttons\":{\"cancel\":\"Annuler\"}}''"

definition en_tree :: jsval where
  "en_tree = Obj [(''greeting'', Str ''Hello {name}!''),
     (''buttons'', Obj [(''cancel'', Str ''Cancel''), (''confirm'', Str ''Confirm'')])]"

definition fr_tree :: jsval where
  "fr_tree = Obj [(''greeting'', Str ''Bonjour {name} !''),
     (''buttons'', Obj [(''cancel'', Str ''Annuler'')])]"

definition strip_json :: "string \<Rightarrow> string" where
  "strip_json filename =
     (if endsWith filename ''.json'' then take (length filename - 5) filename else filename)"

definition test_dir :: node_env where
  "test_dir =
     \<lparr>stat_dir = Inr True,
      readdirSync = Inr [''en.json'', ''fr.json'', ''notes.txt''],
      statSync = (\<lambda>f. if f \<in> set [''en.json'', ''fr.json'', ''notes.txt''] then Inr ()
                       else Inl (SystemError ''ENOENT'')),
      readFileSync = (\<lambda>f. if f = ''en.json'' then Inr en_json
                           else if f = ''fr.json'' then Inr fr_json
                           else if f = ''notes.txt'' then Inr ''to do''
                           else Inl (SystemError ''ENOENT'')),
      JSON_parse = (\<lambda>raw. if raw = en_json then Inr en_tree
                          else if raw = fr_json then Inr fr_tree
                          else Inl SyntaxError),
      basename = strip_json\<rparr>"

text \<open>The same directory after \<open>en.json\<close> has been overwritten with a broken text.\<close>

definition broken_dir :: node_env where
  "broken_dir = test_dir\<lparr>readFileSync := (readFileSync test_dir)(''en.json'' := Inr ''{\"greeting\":'')\<rparr>"

text \<open>The same directory after \<open>en.json\<close> has been saved with another greeting.\<close>

definition changed_dir :: node_env where
  "changed_dir =
     test_dir\<lparr>readFileSync := (readFileSync test_dir)(''en.json'' := Inr ''{\"greeting\":\"Hi {name}!\"}''),
       JSON_parse := (JSON_parse test_dir)
         (''{\"greeting\":\"Hi {name}!\"}'' := Inr (Obj [(''greeting'', Str ''Hi {name}!'')]))\<rparr>"

text \<open>The same directory after \<open>en.json\<close> has been deleted.\<close>

definition deleted_dir :: node_env where
  "deleted_dir =
     test_dir\<lparr>readdirSync := Inr [''fr.json'', ''notes.txt''],
       statSync := (statSync test_dir)(''en.json'' := Inl (SystemError ''ENOENT'')),
       readFileSync := (readFileSync test_dir)(''en.json'' := Inl (SystemError ''ENOENT''))\<rparr>"

text \<open>The manager after its construction on the directory.\<close>

definition test_manager :: manager where
  "test_manager = loadLanguages test_dir (initial ''.'')"

section \<open>Properties of the template engine\<close>

subsection \<open>The scan\<close>

lemma not_word_braces: "\<not> is_word CHR ''{''" "\<not> is_word CHR ''}''"
  by (simp_all add: is_word_def)

lemma takeWhile_word_brace:
  "takeWhile is_word (cs @ CHR ''{'' # r) = takeWhile is_word cs"
  by (induction cs) (simp_all add: not_word_braces)

lemma dropWhile_word_brace:
  "dropWhile is_word (cs @ CHR ''{'' # r) = dropWhile is_word cs @ CHR ''{'' # r"
  by (induction cs) (simp_all add: not_word_braces)

lemma takeWhile_word_run:
  "\<forall>c\<in>set k. is_word c \<Longrightarrow> takeWhile is_word (k @ CHR ''}'' # r) = k"
  by (induction k) (simp_all add: not_word_braces)

lemma dropWhile_word_run:
  "\<forall>c\<in>set k. is_word c \<Longrightarrow> dropWhile is_word (k @ CHR ''}'' # r) = CHR ''}'' # r"
  by (induction k) (simp_all add: not_word_braces)

lemma replace_tokens_Cons:
  "replace_tokens f (c # cs) =
     (if token_at c cs then
        (case f (token (takeWhile is_word cs)) (takeWhile is_word cs) of
           Inl e \<Rightarrow> Inl e
         | Inr r \<Rightarrow>
             (case replace_tokens f (tl (dropWhile is_word cs)) of
                Inl e \<Rightarrow> Inl e
              | Inr out \<Rightarrow> Inr (r @ out)))
      else
        (case replace_tokens f cs of
           Inl e \<Rightarrow> Inl e
         | Inr out \<Rightarrow> Inr (c # out)))"
  by (simp only: replace_tokens.simps(2) token_at_def token_def Let_def)

lemma token_at_run:
  "k \<noteq> [] \<Longrightarrow> \<forall>c\<in>set k. is_word c \<Longrightarrow> token_at CHR ''{'' (k @ CHR ''}'' # post)"
  unfolding token_at_def by (simp only: takeWhile_word_run dropWhile_word_run) simp

lemma token_at_append:
  "token_at c (cs @ CHR ''{'' # r) \<longleftrightarrow> token_at c cs"
  unfolding token_at_def
  by (simp only: takeWhile_word_brace dropWhile_word_brace) (auto simp: hd_append)

lemma token_at_rebuild:
  assumes "token_at c cs"
  shows "c # cs = token (takeWhile is_word cs) @ tl (dropWhile is_word cs)"
proof -
  from assms have c: "c = CHR ''{''" and ne: "dropWhile is_word cs \<noteq> []"
    and hd: "hd (dropWhile is_word cs) = CHR ''}''"
    by (simp_all add: token_at_def)
  from ne hd have "dropWhile is_word cs = CHR ''}'' # tl (dropWhile is_word cs)"
    by (cases "dropWhile is_word cs") simp_all
  then have "cs = takeWhile is_word cs @ CHR ''}'' # tl (dropWhile is_word cs)"
    by (metis takeWhile_dropWhile_id)
  then have "c # cs = CHR ''{'' # takeWhile is_word cs @ CHR ''}'' # tl (dropWhile is_word cs)"
    using c by simp
  then show ?thesis
    by (simp add: token_def)
qed

lemma replace_tokens_at_token:
  assumes "k \<noteq> []" "\<forall>c\<in>set k. is_word c"
  shows "replace_tokens f (CHR ''{'' # k @ CHR ''}'' # post) =
     (case f (token k) k of
        Inl e \<Rightarrow> Inl e
      | Inr r \<Rightarrow> (case replace_tokens f post of Inl e \<Rightarrow> Inl e | Inr b \<Rightarrow> Inr (r @ b)))"
  by (simp only: replace_tokens_Cons token_at_run [OF assms] if_True
        takeWhile_word_run [OF assms(2)] dropWhile_word_run [OF assms(2)] list.sel)

lemma replace_tokens_around_token:
  assumes "is_identifier k"
  shows "replace_tokens f (pre @ token k @ post) =
     (case replace_tokens f pre of
        Inl e \<Rightarrow> Inl e
      | Inr a \<Rightarrow>
          (case f (token k) k of
             Inl e \<Rightarrow> Inl e
           | Inr r \<Rightarrow>
               (case replace_tokens f post of
                  Inl e \<Rightarrow> Inl e
                | Inr b \<Rightarrow> Inr (a @ r @ b))))"
proof -
  from assms have k: "k \<noteq> []" "\<forall>c\<in>set k. is_word c"
    by (simp_all add: is_identifier_def)
  let ?R = "CHR ''{'' # k @ CHR ''}'' # post"
  have R: "token k @ post = ?R"
    by (simp add: token_def)
  have "replace_tokens f (pre @ ?R) =
     (case replace_tokens f pre of
        Inl e \<Rightarrow> Inl e
      | Inr a \<Rightarrow>
          (case f (token k) k of
             Inl e \<Rightarrow> Inl e
           | Inr r \<Rightarrow>
               (case replace_tokens f post of
                  Inl e \<Rightarrow> Inl e
                | Inr b \<Rightarrow> Inr (a @ r @ b))))"
  proof (induction f pre rule: replace_tokens.induct)
    case (1 f)
    show ?case
      by (simp add: replace_tokens_at_token [OF k] del: replace_tokens.simps(2) split: sum.splits)
  next
    case (2 f c cs)
    let ?key = "takeWhile is_word cs"
    let ?rest = "dropWhile is_word cs"
    show ?case
    proof (cases "token_at c cs")
      case True
      then have cond: "c = CHR ''{'' \<and> ?key \<noteq> [] \<and> ?rest \<noteq> [] \<and> hd ?rest = CHR ''}''"
        by (simp add: token_at_def)
      then have tl: "tl (?rest @ ?R) = tl ?rest @ ?R"
        by simp
      have L: "replace_tokens f ((c # cs) @ ?R) =
          (case f (token ?key) ?key of
             Inl e \<Rightarrow> Inl e
           | Inr r \<Rightarrow>
               (case replace_tokens f (tl ?rest @ ?R) of
                  Inl e \<Rightarrow> Inl e
                | Inr out \<Rightarrow> Inr (r @ out)))"
        using True
        by (simp only: append_Cons replace_tokens_Cons token_at_append if_True
              takeWhile_word_brace dropWhile_word_brace tl)
      have R: "replace_tokens f (c # cs) =
          (case f (token ?key) ?key of
             Inl e \<Rightarrow> Inl e
           | Inr r \<Rightarrow>
               (case replace_tokens f (tl ?rest) of
                  Inl e \<Rightarrow> Inl e
                | Inr out \<Rightarrow> Inr (r @ out)))"
        using True by (simp only: replace_tokens_Cons if_True)
      show ?thesis
      proof (cases "f (token ?key) ?key")
        case (Inl e)
        then show ?thesis
          by (simp only: L R sum.case)
      next
        case (Inr r)
        then have "f (CHR ''{'' # ?key @ ''}'') ?key = Inr r"
          by (simp add: token_def)
        from 2(1) [OF refl refl cond this]
        show ?thesis
          by (simp only: L R Inr sum.case) (simp split: sum.splits)
      qed
    next
      case False
      then have cond: "\<not> (c = CHR ''{'' \<and> ?key \<noteq> [] \<and> ?rest \<noteq> [] \<and> hd ?rest = CHR ''}'')"
        by (simp add: token_at_def)
      have L: "replace_tokens f ((c # cs) @ ?R) =
          (case replace_tokens f (cs @ ?R) of
             Inl e \<Rightarrow> Inl e
           | Inr out \<Rightarrow> Inr (c # out))"
        using False
        by (simp only: append_Cons replace_tokens_Cons token_at_append if_False)
      have R: "replace_tokens f (c # cs) =
          (case replace_tokens f cs of
             Inl e \<Rightarrow> Inl e
           | Inr out \<Rightarrow> Inr (c # out))"
        using False by (simp only: replace_tokens_Cons if_False)
      from 2(2) [OF refl refl cond]
      show ?thesis
        by (simp only: L R) (simp split: sum.splits)
    qed
  qed
  then show ?thesis
    by (simp only: R)
qed

text \<open>A callback that gives every token of the template back leaves the template as it is.\<close>

lemma replace_tokens_unchanged:
  "\<forall>k\<in>set (token_ids t). f (token k) k = Inr (token k) \<Longrightarrow> replace_tokens f t = Inr t"
proof (induction t rule: token_ids.induct)
  case 1
  show ?case by simp
next
  case (2 c cs)
  show ?case
  proof (cases "token_at c cs")
    case True
    with 2 have "replace_tokens f (tl (dropWhile is_word cs)) = Inr (tl (dropWhile is_word cs))"
      and "f (token (takeWhile is_word cs)) (takeWhile is_word cs) = Inr (token (takeWhile is_word cs))"
      by simp_all
    then have "replace_tokens f (c # cs) =
        Inr (token (takeWhile is_word cs) @ tl (dropWhile is_word cs))"
      using True by (simp only: replace_tokens_Cons if_True sum.case)
    then show ?thesis
      using token_at_rebuild [OF True] by simp
  next
    case False
    with 2 have "replace_tokens f cs = Inr cs"
      by simp
    then show ?thesis
      using False by (simp only: replace_tokens_Cons if_False sum.case)
  qed
qed

text \<open>A callback that never throws makes the replacement return.\<close>

lemma replace_tokens_total:
  assumes "\<And>m k. \<exists>r. f m k = Inr r"
  shows "\<exists>out. replace_tokens f t = Inr out"
proof (induction t rule: token_ids.induct)
  case 1
  show ?case by simp
next
  case (2 c cs)
  show ?case
  proof (cases "token_at c cs")
    case True
    from assms obtain r where "f (token (takeWhile is_word cs)) (takeWhile is_word cs) = Inr r"
      by blast
    moreover from 2(1) [OF True] obtain out where "replace_tokens f (tl (dropWhile is_word cs)) = Inr out"
      by blast
    ultimately show ?thesis
      using True by (simp only: replace_tokens_Cons if_True sum.case) blast
  next
    case False
    from 2(2) [OF False] obtain out where "replace_tokens f cs = Inr out"
      by blast
    then show ?thesis
      using False by (simp only: replace_tokens_Cons if_False sum.case) blast
  qed
qed

subsection \<open>Conversions\<close>

lemma sequence_total:
  "\<forall>r\<in>set rs. \<exists>x. r = Inr x \<Longrightarrow> \<exists>xs. sequence rs = Inr xs"
  by (induction rs rule: sequence.induct) auto

lemma sequence_Inr_map:
  "sequence (map (\<lambda>x. Inr (g x)) xs) = Inr (map g xs)"
  by (induction xs) simp_all

lemma String_no_object:
  "no_object v \<Longrightarrow> \<exists>s. String v = Inr s"
proof (induction v)
  case (Arr xs)
  have "\<forall>r\<in>set (map (\<lambda>x. case x of Undefined \<Rightarrow> Inr [] | Null \<Rightarrow> Inr [] | _ \<Rightarrow> String x) xs).
      \<exists>s. r = Inr s"
  proof
    fix r
    assume "r \<in> set (map (\<lambda>x. case x of Undefined \<Rightarrow> Inr [] | Null \<Rightarrow> Inr [] | _ \<Rightarrow> String x) xs)"
    then obtain x where x: "x \<in> set xs"
      and r: "r = (case x of Undefined \<Rightarrow> Inr [] | Null \<Rightarrow> Inr [] | _ \<Rightarrow> String x)"
      by auto
    from Arr.prems x have "no_object x"
      by (simp add: list_all_iff)
    with Arr.IH x obtain s where "String x = Inr s"
      by blast
    with r show "\<exists>s. r = Inr s"
      by (cases x) simp_all
  qed
  from sequence_total [OF this] show ?case
    by auto
qed simp_all

lemma no_object_or_empty: "no_object v \<Longrightarrow> no_object (or_empty v)"
  by (cases v) simp_all

lemma array_text_total:
  assumes "list_all no_object vs"
  shows "\<exists>s. array_text vs = Inr s"
proof -
  have "\<forall>r\<in>set (map (\<lambda>v. String (or_empty v)) vs). \<exists>s. r = Inr s"
    using assms String_no_object no_object_or_empty
    by (auto simp: list_all_iff)
  from sequence_total [OF this] show ?thesis
    by (auto simp: array_text_def)
qed

lemma replacer_total:
  assumes "list_all (\<lambda>(k, v). no_object v) values"
  shows "\<exists>r. replacer values m k = Inr r"
proof (cases "map_of values k")
  case None
  then show ?thesis
    by (simp add: replacer_def)
next
  case (Some v)
  then have "(k, v) \<in> set values"
    by (rule map_of_SomeD)
  with assms have c: "no_object v"
    by (auto simp: list_all_iff)
  show ?thesis
  proof (cases v)
    case (Arr vs)
    with c array_text_total [of vs] Some show ?thesis
      by (simp add: replacer_def)
  qed (use Some c in \<open>simp_all add: replacer_def\<close>)
qed

lemma replacePlaceholders_total:
  assumes "list_all (\<lambda>(k, v). no_object v) values"
  shows "\<exists>out. replacePlaceholders t values = Inr out"
  using replace_tokens_total [of "replacer values" t] replacer_total [OF assms]
  by (simp add: replacePlaceholders_def)

lemmas test_defs =
  test_manager_def loadLanguages_def test_dir_def initial_def loadFile_def read_file_def
  endsWith_def console_log_def strip_json_def en_json_def fr_json_def en_tree_def fr_tree_def
  flatten_def broken_dir_def deleted_dir_def

text \<open>
  Claim C8. A token whose identifier has no entry in the arguments is left as it is,
  braces included: around it, the template before the token and the template behind it
  are replaced on their own, and the token stands between the two results.
\<close>

theorem unknown_token_left_verbatim:
  assumes "is_identifier k" and "map_of values k = None"
  shows "replacePlaceholders (pre @ token k @ post) values =
     (case replacePlaceholders pre values of
        Inl e \<Rightarrow> Inl e
      | Inr a \<Rightarrow>
          (case replacePlaceholders post values of
             Inl e \<Rightarrow> Inl e
           | Inr b \<Rightarrow> Inr (a @ token k @ b)))"
proof (cases "values = []")
  case True
  then show ?thesis
    by (simp add: replacePlaceholders_def)
next
  case False
  from assms(2) have "replacer values (token k) k = Inr (token k)"
    by (simp add: replacer_def)
  with False show ?thesis
    by (simp add: replacePlaceholders_def replace_tokens_around_token [OF assms(1)]
          split: sum.splits)
qed

theorem unknown_token_left_verbatim_witness:
  "is_identifier ''x'' \<and> map_of [(''name'', Str ''Al'')] ''x'' = None \<and>
   replacePlaceholders (''{name}: '' @ token ''x'' @ ''!'') [(''name'', Str ''Al'')] = Inr ''Al: {x}!''"
proof -
  have id: "is_identifier ''x''"
    by (simp add: is_identifier_def is_word_def)
  have absent: "map_of [(''name'', Str ''Al'')] ''x'' = None"
    by simp
  have pre: "replacePlaceholders ''{name}: '' [(''name'', Str ''Al'')] = Inr ''Al: ''"
    by (simp add: replacePlaceholders_def replacer_def is_word_def)
  have post: "replacePlaceholders ''!'' [(''name'', Str ''Al'')] = Inr ''!''"
    by (simp add: replacePlaceholders_def)
  have "replacePlaceholders (''{name}: '' @ token ''x'' @ ''!'') [(''name'', Str ''Al'')] =
      Inr (''Al: '' @ token ''x'' @ ''!'')"
    using unknown_token_left_verbatim [OF id absent, of "''{name}: ''" "''!''"]
    by (simp only: pre post sum.case)
  then show ?thesis
    using id absent by (simp add: token_def)
qed

lemma array_text_scalars:
  assumes "list_all string_number_or_nullish vs"
  shows "array_text vs = Inr (join '', '' (map item_text vs))"
proof -
  have "map (\<lambda>v. String (or_empty v)) vs = map (\<lambda>v. Inr (item_text v)) vs"
  proof (rule map_cong [OF refl])
    fix v
    assume "v \<in> set vs"
    with assms have "string_number_or_nullish v"
      by (simp add: list_all_iff)
    then show "String (or_empty v) = Inr (item_text v)"
      by (cases v) simp_all
  qed
  then have "sequence (map (\<lambda>v. String (or_empty v)) vs) = Inr (map item_text vs)"
    by (simp only: sequence_Inr_map)
  then show ?thesis
    by (simp only: array_text_def sum.case)
qed

text \<open>
  Claim C7, as the code has it. A token whose identifier maps to an array is replaced by
  the elements of the array, each converted with \<open>String(v ?? '')\<close>, joined with a
  comma and a space; a conversion that throws makes the replacement throw. For strings,
  numbers, \<open>null\<close> and \<open>undefined\<close> this is the text of each string and number, and
  the empty string for the other two.
\<close>

theorem array_token_joined:
  assumes "is_identifier k" and "map_of values k = Some (Arr vs)"
  shows "replacePlaceholders (pre @ token k @ post) values =
     (case replacePlaceholders pre values of
        Inl e \<Rightarrow> Inl e
      | Inr a \<Rightarrow>
          (case array_text vs of
             Inl e \<Rightarrow> Inl e
           | Inr r \<Rightarrow>
               (case replacePlaceholders post values of
                  Inl e \<Rightarrow> Inl e
                | Inr b \<Rightarrow> Inr (a @ r @ b)))) \<and>
     (list_all string_number_or_nullish vs \<longrightarrow>
        array_text vs = Inr (join '', '' (map item_text vs)))"
proof -
  from assms(2) have ne: "values \<noteq> []"
    by auto
  from assms(2) have "replacer values (token k) k = array_text vs"
    by (simp add: replacer_def)
  with ne show ?thesis
    by (simp add: replacePlaceholders_def replace_tokens_around_token [OF assms(1)]
          array_text_scalars split: sum.splits)
qed

theorem array_token_joined_witness:
  "is_identifier ''list'' \<and>
   map_of [(''list'', Arr [Str ''a'', Str ''b'', Num ''3''])] ''list'' = Some (Arr [Str ''a'', Str ''b'', Num ''3'']) \<and>
   list_all string_number_or_nullish [Str ''a'', Str ''b'', Num ''3''] \<and>
   replacePlaceholders (''Items: '' @ token ''list'' @ []) [(''list'', Arr [Str ''a'', Str ''b'', Num ''3''])] =
     Inr ''Items: a, b, 3''"
proof -
  let ?vs = "[Str ''a'', Str ''b'', Num ''3'']"
  let ?args = "[(''list'', Arr ?vs)]"
  have id: "is_identifier ''list''"
    by (simp add: is_identifier_def is_word_def)
  have there: "map_of ?args ''list'' = Some (Arr ?vs)"
    by simp
  have all: "list_all string_number_or_nullish ?vs"
    by simp
  have pre: "replacePlaceholders ''Items: '' ?args = Inr ''Items: ''"
    by (simp add: replacePlaceholders_def)
  have post: "replacePlaceholders [] ?args = Inr []"
    by (simp add: replacePlaceholders_def)
  from array_token_joined [OF id there, of "''Items: ''" "[]"] all
  have "replacePlaceholders (''Items: '' @ token ''list'' @ []) ?args =
      Inr (''Items: '' @ join '', '' (map item_text ?vs) @ [])"
    by (simp only: pre post sum.case)
  then show ?thesis
    using id there all by simp
qed

theorem array_token_joined_counterexample:
  "replacePlaceholders ''{list}'' [(''list'', Arr [Bool True])] = Inr ''true'' \<and>
   join '', '' (map item_text [Bool True]) = [] \<and>
   replacePlaceholders ''{list}'' [(''list'', Arr [Obj [(''toString'', Null)]])] = Inl TypeError"
  by (simp add: replacePlaceholders_def replacer_def array_text_def is_word_def)

lemma Translator_array_token_joined:
  assumes "is_identifier k" and "map_of values k = Some (Arr vs)"
    and "map_of values ''hasOwnProperty'' = None"
  shows "Translator_replacePlaceholders (pre @ token k @ post) values =
     (case Translator_replacePlaceholders pre values of
        Inl e \<Rightarrow> Inl e
      | Inr a \<Rightarrow>
          (case Translator_replacePlaceholders post values of
             Inl e \<Rightarrow> Inl e
           | Inr b \<Rightarrow> Inr (a @ join '', '' (map item_text vs) @ b)))"
proof -
  from assms(2,3) have "Translator_replacer values (token k) k = Inr (join '', '' (map item_text vs))"
    by (simp add: Translator_replacer_def)
  then show ?thesis
    by (simp add: Translator_replacePlaceholders_def replace_tokens_around_token [OF assms(1)]
          split: sum.splits)
qed

section \<open>Properties of the flattener\<close>

lemma flatten_entries_map:
  "is_map v \<Longrightarrow>
   flatten_entries ((key, v) # rest) sep parentKey result =
     (case flatten_entries (map_entries v) sep
             (if parentKey \<noteq> [] then parentKey @ sep @ key else key) Map.empty of
        Inl e \<Rightarrow> Inl e
      | Inr sub \<Rightarrow> flatten_entries rest sep parentKey (result ++ sub))"
  by (cases v) (simp_all add: Let_def)

lemma flatten_entries_leaf:
  "\<not> is_map v \<Longrightarrow>
   flatten_entries ((key, v) # rest) sep parentKey result =
     (case String (or_empty v) of
        Inl e \<Rightarrow> Inl e
      | Inr s \<Rightarrow>
          flatten_entries rest sep parentKey
            (result((if parentKey \<noteq> [] then parentKey @ sep @ key else key) \<mapsto> s)))"
  by (cases v) (simp_all add: Let_def)

lemma terminals_map:
  "is_map v \<Longrightarrow>
   terminals ((key, v) # rest) sep parent =
     terminals (map_entries v) sep (Some (flat_key parent sep key)) @ terminals rest sep parent"
  by (cases v) simp_all

lemma terminals_leaf:
  "\<not> is_map v \<Longrightarrow>
   terminals ((key, v) # rest) sep parent = (flat_key parent sep key, v) # terminals rest sep parent"
  by (cases v) simp_all

lemma map_entries_smaller:
  "is_map v \<Longrightarrow>
   size_list (size_prod (\<lambda>_. 0) size) (map_entries v) <
     size_list (size_prod (\<lambda>_. 0) size) ((key, v) # rest)"
  by (cases v) simp_all

text \<open>
  Where no parent has the empty flat key, the key that \<open>_flatten\<close> builds is the flat key
  of the specification.
\<close>

lemma fullKey_flat_key:
  assumes "parent \<noteq> Some []"
  shows "(if (case parent of None \<Rightarrow> [] | Some p \<Rightarrow> p) \<noteq> []
          then (case parent of None \<Rightarrow> [] | Some p \<Rightarrow> p) @ sep @ key else key) =
     flat_key parent sep key"
  using assms by (cases parent) simp_all

lemma scalar_element_text:
  "is_scalar x \<Longrightarrow> (case x of Undefined \<Rightarrow> Inr [] | Null \<Rightarrow> Inr [] | _ \<Rightarrow> String x) = Inr (scalar_text x)"
  by (cases x) simp_all

lemma String_leaf: "is_leaf v \<Longrightarrow> String (or_empty v) = Inr (leaf_text v)"
proof (cases v)
  case (Arr xs)
  assume "is_leaf v"
  with Arr have "\<forall>x\<in>set xs. is_scalar x"
    by (simp add: list_all_iff)
  then have "map (\<lambda>x. case x of Undefined \<Rightarrow> Inr [] | Null \<Rightarrow> Inr [] | _ \<Rightarrow> String x) xs =
      map (\<lambda>x. Inr (scalar_text x)) xs"
    by (simp add: scalar_element_text)
  then have "sequence (map (\<lambda>x. case x of Undefined \<Rightarrow> Inr [] | Null \<Rightarrow> Inr [] | _ \<Rightarrow> String x) xs) =
      Inr (map scalar_text xs)"
    by (simp only: sequence_Inr_map)
  with Arr show ?thesis
    by simp
qed simp_all

lemma is_leaf_not_map: "is_leaf v \<Longrightarrow> \<not> is_map v"
  by (cases v) simp_all

text \<open>
  Where no map has the empty flat key, the loop returns the map in which each terminal
  is stored under its flat key, a later one over an earlier one.
\<close>

lemma flatten_entries_terminals:
  assumes "\<forall>(k, v)\<in>set (terminals es sep parent). is_leaf v"
    and "case parent of None \<Rightarrow> \<forall>(k, v)\<in>set es. is_map v \<longrightarrow> k \<noteq> [] | Some p \<Rightarrow> p \<noteq> []"
  shows "flatten_entries es sep (case parent of None \<Rightarrow> [] | Some p \<Rightarrow> p) result =
     Inr (result ++ map_of (rev (map (\<lambda>(k, v). (k, leaf_text v)) (terminals es sep parent))))"
  using assms
proof (induction "size_list (size_prod (\<lambda>_. 0) size) es" arbitrary: es parent result rule: less_induct)
  case less
  let ?pk = "case parent of None \<Rightarrow> [] | Some p \<Rightarrow> p"
  show ?case
  proof (cases es)
    case Nil
    then show ?thesis
      by simp
  next
    case (Cons e rest)
    obtain key v where e: "e = (key, v)"
      by (cases e)
    let ?full = "flat_key parent sep key"
    from less.prems(2) have top: "parent \<noteq> Some []"
      by (cases parent) auto
    have full: "(if ?pk \<noteq> [] then ?pk @ sep @ key else key) = ?full"
      by (rule fullKey_flat_key [OF top])
    have rest_less: "size_list (size_prod (\<lambda>_. 0) size) rest < size_list (size_prod (\<lambda>_. 0) size) es"
      by (simp add: Cons)
    from less.prems(2) have rest_level:
      "case parent of None \<Rightarrow> \<forall>(k, v)\<in>set rest. is_map v \<longrightarrow> k \<noteq> [] | Some p \<Rightarrow> p \<noteq> []"
      by (cases parent) (auto simp: Cons)
    show ?thesis
    proof (cases "is_map v")
      case True
      let ?kvs = "map_entries v"
      have kvs_less: "size_list (size_prod (\<lambda>_. 0) size) ?kvs < size_list (size_prod (\<lambda>_. 0) size) es"
        unfolding Cons e by (rule map_entries_smaller [OF True])
      have ts: "terminals es sep parent = terminals ?kvs sep (Some ?full) @ terminals rest sep parent"
        by (simp only: Cons e terminals_map [OF True])
      from less.prems(1) ts have leaves: "\<forall>(k, v)\<in>set (terminals ?kvs sep (Some ?full)). is_leaf v"
        "\<forall>(k, v)\<in>set (terminals rest sep parent). is_leaf v"
        by auto
      from less.prems(2) True have "?full \<noteq> []"
        by (cases parent) (auto simp: Cons e)
      then have kvs_level: "case Some ?full of None \<Rightarrow> \<forall>(k, v)\<in>set ?kvs. is_map v \<longrightarrow> k \<noteq> [] | Some p \<Rightarrow> p \<noteq> []"
        by simp
      have "flatten_entries ?kvs sep (case Some ?full of None \<Rightarrow> [] | Some p \<Rightarrow> p) Map.empty =
          Inr (Map.empty ++ map_of (rev (map (\<lambda>(k, v). (k, leaf_text v)) (terminals ?kvs sep (Some ?full)))))"
        by (rule less.hyps [OF kvs_less leaves(1) kvs_level])
      then have sub: "flatten_entries ?kvs sep ?full Map.empty =
          Inr (Map.empty ++ map_of (rev (map (\<lambda>(k, v). (k, leaf_text v)) (terminals ?kvs sep (Some ?full)))))"
        by simp
      have "flatten_entries es sep ?pk result =
          flatten_entries rest sep ?pk
            (result ++ (Map.empty ++ map_of (rev (map (\<lambda>(k, v). (k, leaf_text v)) (terminals ?kvs sep (Some ?full))))))"
        by (simp only: Cons e flatten_entries_map [OF True] full sub sum.case)
      also have "\<dots> = Inr ((result ++ (Map.empty ++ map_of (rev (map (\<lambda>(k, v). (k, leaf_text v)) (terminals ?kvs sep (Some ?full)))))) ++
          map_of (rev (map (\<lambda>(k, v). (k, leaf_text v)) (terminals rest sep parent))))"
        by (rule less.hyps [OF rest_less leaves(2) rest_level])
      finally show ?thesis
        by (simp add: ts)
    next
      case False
      have ts: "terminals es sep parent = (?full, v) # terminals rest sep parent"
        by (simp only: Cons e terminals_leaf [OF False])
      from less.prems(1) ts have leaf: "is_leaf v"
        and leaves: "\<forall>(k, v)\<in>set (terminals rest sep parent). is_leaf v"
        by auto
      have "flatten_entries es sep ?pk result =
          flatten_entries rest sep ?pk (result(?full \<mapsto> leaf_text v))"
        by (simp only: Cons e flatten_entries_leaf [OF False] full String_leaf [OF leaf] sum.case)
      also have "\<dots> = Inr (result(?full \<mapsto> leaf_text v) ++
          map_of (rev (map (\<lambda>(k, v). (k, leaf_text v)) (terminals rest sep parent))))"
        by (rule less.hyps [OF rest_less leaves rest_level])
      finally show ?thesis
        by (simp add: ts)
    qed
  qed
qed

lemma dom_later_wins:
  "dom (map_of (rev (map (\<lambda>(k, v). (k, g v)) ts))) = fst ` set ts"
  by (force simp: dom_map_of_conv_image_fst)

lemma later_wins_distinct:
  assumes "distinct (map fst ts)" and "(k, v) \<in> set ts"
  shows "map_of (rev (map (\<lambda>(k, v). (k, g v)) ts)) k = Some (g v)"
proof -
  have "map fst (rev (map (\<lambda>(k, v). (k, g v)) ts)) = rev (map fst ts)"
    by (simp add: rev_map case_prod_unfold comp_def)
  with assms(1) have "distinct (map fst (rev (map (\<lambda>(k, v). (k, g v)) ts)))"
    by simp
  moreover from assms(2) have "(k, g v) \<in> set (rev (map (\<lambda>(k, v). (k, g v)) ts))"
    by force
  ultimately show ?thesis
    by (rule map_of_is_SomeI)
qed

text \<open>
  Claim C3, as the code has it. For a tree whose leaves are scalars or arrays of scalars
  and in which no map is stored under the empty key of the root, and for every
  separator, \<open>_flatten\<close> returns a map whose keys are the flat keys of the terminal
  values of the tree; when no two terminal values have the same flat key, the map has
  one entry for each terminal value, holding the string form of that value.
\<close>

theorem flatten_one_entry_per_terminal:
  assumes "\<forall>(k, v)\<in>set (terminals tree sep None). is_leaf v"
    and "\<forall>(k, v)\<in>set tree. is_map v \<longrightarrow> k \<noteq> []"
  shows "\<exists>m. flatten (Obj tree) sep [] = Inr m \<and>
     dom m = fst ` set (terminals tree sep None) \<and>
     (distinct (map fst (terminals tree sep None)) \<longrightarrow>
        card (dom m) = length (terminals tree sep None) \<and>
        (\<forall>(k, v)\<in>set (terminals tree sep None). m k = Some (leaf_text v)))"
proof -
  let ?ts = "terminals tree sep None"
  let ?m = "map_of (rev (map (\<lambda>(k, v). (k, leaf_text v)) ?ts))"
  from assms(2) have "case None of None \<Rightarrow> \<forall>(k, v)\<in>set tree. is_map v \<longrightarrow> k \<noteq> [] | Some p \<Rightarrow> p \<noteq> []"
    by simp
  from flatten_entries_terminals [OF assms(1) this, of Map.empty]
  have m: "flatten (Obj tree) sep [] = Inr ?m"
    by (simp add: flatten_def)
  have d: "dom ?m = fst ` set ?ts"
    by (rule dom_later_wins)
  have "card (dom ?m) = length ?ts" if "distinct (map fst ?ts)"
  proof -
    have "card (dom ?m) = card (set (map fst ?ts))"
      by (simp add: d)
    also from that have "\<dots> = length (map fst ?ts)"
      by (rule distinct_card)
    finally show ?thesis
      by simp
  qed
  moreover have "\<forall>(k, v)\<in>set ?ts. ?m k = Some (leaf_text v)" if "distinct (map fst ?ts)"
    using later_wins_distinct [OF that] by blast
  ultimately show ?thesis
    using m d by blast
qed

theorem flatten_one_entry_per_terminal_witness:
  "list_all (\<lambda>(k, v). is_leaf v)
     (terminals [(''greeting'', Str ''Hello {name}!''),
        (''buttons'', Obj [(''cancel'', Str ''Cancel''), ('''', Str ''Confirm'')])] ''.'' None) \<and>
   list_all (\<lambda>(k, v). is_map v \<longrightarrow> k \<noteq> [])
     [(''greeting'', Str ''Hello {name}!''),
      (''buttons'', Obj [(''cancel'', Str ''Cancel''), ('''', Str ''Confirm'')])] \<and>
   distinct (map fst
     (terminals [(''greeting'', Str ''Hello {name}!''),
        (''buttons'', Obj [(''cancel'', Str ''Cancel''), ('''', Str ''Confirm'')])] ''.'' None)) \<and>
   (\<exists>m. flatten (Obj [(''greeting'', Str ''Hello {name}!''),
        (''buttons'', Obj [(''cancel'', Str ''Cancel''), ('''', Str ''Confirm'')])]) ''.'' [] = Inr m \<and>
      dom m = {''greeting'', ''buttons.cancel'', ''buttons.''} \<and>
      card (dom m) = 3 \<and>
      m ''buttons.'' = Some ''Confirm'')"
proof -
  let ?tree = "[(''greeting'', Str ''Hello {name}!''),
        (''buttons'', Obj [(''cancel'', Str ''Cancel''), ('''', Str ''Confirm'')])]"
  have ts: "terminals ?tree ''.'' None =
      [(''greeting'', Str ''Hello {name}!''), (''buttons.cancel'', Str ''Cancel''),
       (''buttons.'', Str ''Confirm'')]"
    by simp
  have leaves: "\<forall>(k, v)\<in>set (terminals ?tree ''.'' None). is_leaf v"
    by (simp only: ts) simp
  have root: "\<forall>(k, v)\<in>set ?tree. is_map v \<longrightarrow> k \<noteq> []"
    by simp
  have dist: "distinct (map fst (terminals ?tree ''.'' None))"
    by (simp only: ts) simp
  from flatten_one_entry_per_terminal [OF leaves root] dist
  obtain m where m: "flatten (Obj ?tree) ''.'' [] = Inr m"
    and d: "dom m = fst ` set (terminals ?tree ''.'' None)"
    and c: "card (dom m) = length (terminals ?tree ''.'' None)"
    and v: "\<forall>(k, v)\<in>set (terminals ?tree ''.'' None). m k = Some (leaf_text v)"
    by blast
  from d have "dom m = {''greeting'', ''buttons.cancel'', ''buttons.''}"
    by (simp only: ts) simp
  moreover from c have "card (dom m) = 3"
    by (simp only: ts) simp
  moreover from v have "m ''buttons.'' = Some ''Confirm''"
    by (simp only: ts) simp
  moreover have "list_all (\<lambda>(k, v). is_leaf v) (terminals ?tree ''.'' None)"
    by (simp only: ts) simp
  moreover have "list_all (\<lambda>(k, v). is_map v \<longrightarrow> k \<noteq> []) ?tree"
    by simp
  ultimately show ?thesis
    using m dist by blast
qed

theorem flatten_one_entry_per_terminal_counterexample:
  "list_all (\<lambda>(k, v). is_map v \<longrightarrow> k \<noteq> []) [(''a.b'', Str ''x''), (''a'', Obj [(''b'', Str ''y'')])] \<and>
   terminals [(''a.b'', Str ''x''), (''a'', Obj [(''b'', Str ''y'')])] ''.'' None =
     [(''a.b'', Str ''x''), (''a.b'', Str ''y'')] \<and>
   flatten (Obj [(''a.b'', Str ''x''), (''a'', Obj [(''b'', Str ''y'')])]) ''.'' [] =
     Inr [''a.b'' \<mapsto> ''y''] \<and>
   card (dom [''a.b'' \<mapsto> ''y'']) = 1 \<and>
   length (terminals [(''a.b'', Str ''x''), (''a'', Obj [(''b'', Str ''y'')])] ''.'' None) = 2"
  by (simp add: flatten_def)

text \<open>
  A map under the empty key of the root: \<open>_flatten\<close> takes the empty parent key for no
  parent (index.js, line 53) and stores the values of the map without the separator in
  front. The flat keys \<open>.a\<close> and \<open>a\<close> of the two terminal values differ, and the map
  returned has one entry.
\<close>

lemma flatten_under_empty_key:
  "terminals [('''', Obj [(''a'', Str ''x'')]), (''a'', Str ''y'')] ''.'' None =
     [(''.a'', Str ''x''), (''a'', Str ''y'')] \<and>
   flatten (Obj [('''', Obj [(''a'', Str ''x'')]), (''a'', Str ''y'')]) ''.'' [] =
     Inr [''a'' \<mapsto> ''y'']"
  by (simp add: flatten_def)

lemma terminals_flat:
  "\<forall>(k, v)\<in>set tree. \<not> is_map v \<Longrightarrow> terminals tree sep None = tree"
proof (induction tree)
  case Nil
  show ?case by simp
next
  case (Cons e tree)
  obtain key v where e: "e = (key, v)"
    by (cases e)
  with Cons.prems have "\<not> is_map v"
    by simp
  from terminals_leaf [OF this, of key tree sep None] Cons e show ?case
    by simp
qed

text \<open>
  Claim C9, as the code has it. For a tree without nested maps, whose values are
  scalars or arrays of scalars, and for every separator, \<open>_flatten\<close> returns a map with
  the keys of the tree, each holding the string form of the value of the tree; for a
  value that is a string this is the value itself.
\<close>

theorem flatten_flat_tree:
  assumes "\<forall>(k, v)\<in>set tree. is_leaf v" and "distinct (map fst tree)"
  shows "\<exists>m. flatten (Obj tree) sep [] = Inr m \<and>
     dom m = fst ` set tree \<and>
     (\<forall>(k, v)\<in>set tree. m k = Some (leaf_text v)) \<and>
     (\<forall>k s. (k, Str s) \<in> set tree \<longrightarrow> m k = Some s)"
proof -
  let ?m = "map_of (rev (map (\<lambda>(k, v). (k, leaf_text v)) tree))"
  from assms(1) have flat: "\<forall>(k, v)\<in>set tree. \<not> is_map v"
    using is_leaf_not_map by blast
  then have ts: "terminals tree sep None = tree"
    by (rule terminals_flat)
  with assms(1) have leaves: "\<forall>(k, v)\<in>set (terminals tree sep None). is_leaf v"
    by simp
  from flat have "case None of None \<Rightarrow> \<forall>(k, v)\<in>set tree. is_map v \<longrightarrow> k \<noteq> [] | Some p \<Rightarrow> p \<noteq> []"
    by auto
  from flatten_entries_terminals [OF leaves this, of Map.empty]
  have m: "flatten (Obj tree) sep [] = Inr ?m"
    by (simp add: flatten_def ts)
  have d: "dom ?m = fst ` set tree"
    by (rule dom_later_wins)
  have v: "\<forall>(k, v)\<in>set tree. ?m k = Some (leaf_text v)"
    using later_wins_distinct [OF assms(2)] by blast
  then have "\<forall>k s. (k, Str s) \<in> set tree \<longrightarrow> ?m k = Some s"
    by fastforce
  with m d v show ?thesis
    by blast
qed

theorem flatten_flat_tree_witness:
  "list_all (\<lambda>(k, v). is_leaf v) [(''title'', Str ''Home''), (''count'', Num ''5''), (''tags'', Arr [Str ''a'', Str ''b''])] \<and>
   distinct (map fst [(''title'', Str ''Home''), (''count'', Num ''5''), (''tags'', Arr [Str ''a'', Str ''b''])]) \<and>
   (\<exists>m. flatten (Obj [(''title'', Str ''Home''), (''count'', Num ''5''), (''tags'', Arr [Str ''a'', Str ''b''])]) ''/'' [] = Inr m \<and>
      dom m = {''title'', ''count'', ''tags''} \<and>
      m ''title'' = Some ''Home'' \<and> m ''count'' = Some ''5'' \<and> m ''tags'' = Some ''a,b'')"
proof -
  let ?tree = "[(''title'', Str ''Home''), (''count'', Num ''5''), (''tags'', Arr [Str ''a'', Str ''b''])]"
  have leaves: "\<forall>(k, v)\<in>set ?tree. is_leaf v"
    by simp
  have dist: "distinct (map fst ?tree)"
    by simp
  from flatten_flat_tree [OF leaves dist, of "''/''"]
  obtain m where m: "flatten (Obj ?tree) ''/'' [] = Inr m"
    and d: "dom m = fst ` set ?tree"
    and v: "\<forall>(k, v)\<in>set ?tree. m k = Some (leaf_text v)"
    by blast
  from d have "dom m = {''title'', ''count'', ''tags''}"
    by simp
  moreover from v have "m ''title'' = Some ''Home''" "m ''count'' = Some ''5''" "m ''tags'' = Some ''a,b''"
    by simp_all
  moreover have "list_all (\<lambda>(k, v). is_leaf v) ?tree"
    by simp
  ultimately show ?thesis
    using m dist by blast
qed

theorem flatten_flat_tree_counterexample:
  "list_all (\<lambda>(k, v). \<not> is_map v) [(''count'', Num ''5''), (''note'', Null), (''tags'', Arr [Str ''a'', Str ''b''])] \<and>
   flatten (Obj [(''count'', Num ''5''), (''note'', Null), (''tags'', Arr [Str ''a'', Str ''b''])]) ''.'' [] =
     Inr [''count'' \<mapsto> ''5'', ''note'' \<mapsto> [], ''tags'' \<mapsto> ''a,b''] \<and>
   Str ''5'' \<noteq> Num ''5'' \<and> Str [] \<noteq> Null \<and> Str ''a,b'' \<noteq> Arr [Str ''a'', Str ''b'']"
  by (simp add: flatten_def)

section \<open>Properties of the lookup\<close>


lemma test_manager_en:
  "languages test_manager ''en'' =
     Some [''greeting'' \<mapsto> ''Hello {name}!'', ''buttons.cancel'' \<mapsto> ''Cancel'',
           ''buttons.confirm'' \<mapsto> ''Confirm'']"
  by (simp add: test_defs)

lemma test_manager_fr:
  "languages test_manager ''fr'' =
     Some [''greeting'' \<mapsto> ''Bonjour {name} !'', ''buttons.cancel'' \<mapsto> ''Annuler'']"
  by (simp add: test_defs)

lemma test_manager_de: "languages test_manager ''de'' = None"
  by (simp add: test_defs)


text \<open>
  Claim C4, as the code has it. For a key that the flat map of a loaded locale does not
  have, \<open>get\<close> returns the key itself when no token of the key names an entry of the
  arguments.
\<close>

theorem get_missing_key_fallback:
  assumes "languages s locale = Some flat" and "flat key = None"
    and "\<forall>k\<in>set (token_ids key). map_of args k = None"
  shows "get s locale key args = Inr key"
proof -
  from assms(3) have "\<forall>k\<in>set (token_ids key). replacer args (token k) k = Inr (token k)"
    by (simp add: replacer_def)
  then have "replace_tokens (replacer args) key = Inr key"
    by (rule replace_tokens_unchanged)
  with assms(1,2) show ?thesis
    by (simp add: get_def replacePlaceholders_def)
qed

theorem get_missing_key_fallback_witness:
  "languages test_manager ''fr'' =
     Some [''greeting'' \<mapsto> ''Bonjour {name} !'', ''buttons.cancel'' \<mapsto> ''Annuler''] \<and>
   [''greeting'' \<mapsto> ''Bonjour {name} !'', ''buttons.cancel'' \<mapsto> ''Annuler''] ''items.{count}'' = None \<and>
   token_ids ''items.{count}'' = [''count''] \<and>
   map_of [(''name'', Str ''Alice'')] ''count'' = None \<and>
   get test_manager ''fr'' ''items.{count}'' [(''name'', Str ''Alice'')] = Inr ''items.{count}''"
proof -
  let ?fr = "[''greeting'' \<mapsto> ''Bonjour {name} !'', ''buttons.cancel'' \<mapsto> ''Annuler'']"
  have absent: "?fr ''items.{count}'' = None"
    by simp
  have ids: "token_ids ''items.{count}'' = [''count'']"
    by (simp add: token_at_def is_word_def)
  have no_entry: "map_of [(''name'', Str ''Alice'')] ''count'' = None"
    by simp
  with ids have none: "\<forall>k\<in>set (token_ids ''items.{count}''). map_of [(''name'', Str ''Alice'')] k = None"
    by simp
  from get_missing_key_fallback [OF test_manager_fr absent none]
  have "get test_manager ''fr'' ''items.{count}'' [(''name'', Str ''Alice'')] = Inr ''items.{count}''" .
  with test_manager_fr absent ids no_entry show ?thesis
    by simp
qed

theorem get_missing_key_fallback_counterexample:
  "languages test_manager ''fr'' \<noteq> None \<and>
   (case languages test_manager ''fr'' of None \<Rightarrow> None | Some translations \<Rightarrow> translations ''Hello {who}'') = None \<and>
   get test_manager ''fr'' ''Hello {who}'' [(''who'', Str ''World'')] = Inr ''Hello World'' \<and>
   get test_manager ''fr'' ''Hello {who}'' [(''who'', Str ''World'')] \<noteq> Inr ''Hello {who}''"
  by (simp add: test_manager_fr get_def replacePlaceholders_def replacer_def is_word_def)

text \<open>
  Claim C5, as the code has it. For a locale without an entry in the table, \<open>get\<close>
  throws an error whose message names the locale. When no value of the arguments is an
  object or an array that holds one, this is the only error \<open>get\<close> throws.
\<close>

theorem get_unknown_locale:
  "(languages s locale = None \<longrightarrow>
      get s locale key args =
        Inl (Error (''Locale '' @ [CHR 0x27] @ locale @ [CHR 0x27] @ '' not found''))) \<and>
   (list_all (\<lambda>(k, v). no_object v) args \<longrightarrow> get s locale key args = Inl e \<longrightarrow>
      languages s locale = None \<and>
      e = Error (''Locale '' @ [CHR 0x27] @ locale @ [CHR 0x27] @ '' not found''))"
proof (intro conjI impI)
  assume "languages s locale = None"
  then show "get s locale key args =
      Inl (Error (''Locale '' @ [CHR 0x27] @ locale @ [CHR 0x27] @ '' not found''))"
    by (simp add: get_def locale_not_found_def)
next
  assume conv: "list_all (\<lambda>(k, v). no_object v) args" and err: "get s locale key args = Inl e"
  show "languages s locale = None"
  proof (rule ccontr)
    assume "languages s locale \<noteq> None"
    then obtain flat where "languages s locale = Some flat"
      by blast
    with err have "replacePlaceholders (case flat key of None \<Rightarrow> key | Some t \<Rightarrow> t) args = Inl e"
      by (simp add: get_def)
    with replacePlaceholders_total [OF conv, of "case flat key of None \<Rightarrow> key | Some t \<Rightarrow> t"]
    show False
      by auto
  qed
  with err show "e = Error (''Locale '' @ [CHR 0x27] @ locale @ [CHR 0x27] @ '' not found'')"
    by (simp add: get_def locale_not_found_def)
qed

theorem get_unknown_locale_witness:
  "languages test_manager ''de'' = None \<and>
   list_all (\<lambda>(k, v). no_object v) [(''name'', Str ''Alice'')] \<and>
   get test_manager ''de'' ''greeting'' [(''name'', Str ''Alice'')] = Inl (Error (''Locale '' @ [CHR 0x27] @ ''de'' @ [CHR 0x27] @ '' not found''))"
proof -
  have conv: "list_all (\<lambda>(k, v). no_object v) [(''name'', Str ''Alice'')]"
    by simp
  from get_unknown_locale [of test_manager "''de''" "''greeting''" "[(''name'', Str ''Alice'')]"]
    test_manager_de
  have "get test_manager ''de'' ''greeting'' [(''name'', Str ''Alice'')] =
      Inl (Error (''Locale '' @ [CHR 0x27] @ ''de'' @ [CHR 0x27] @ '' not found''))"
    by blast
  with test_manager_de conv show ?thesis
    by simp
qed

theorem get_unknown_locale_counterexample:
  "languages test_manager ''en'' \<noteq> None \<and>
   get test_manager ''en'' ''{x}'' [(''x'', Obj [(''toString'', Num ''1'')])] = Inl TypeError \<and>
   get test_manager ''en'' ''{x}'' [(''x'', NullProto [])] = Inl TypeError"
  by (simp add: test_manager_en get_def replacePlaceholders_def replacer_def is_word_def)

section \<open>Properties of the resource store and of the reconciler\<close>

lemma test_manager_eq:
  "test_manager =
     \<lparr>separator = ''.'',
      languages =
        [''en'' \<mapsto> [''greeting'' \<mapsto> ''Hello {name}!'', ''buttons.cancel'' \<mapsto> ''Cancel'',
                    ''buttons.confirm'' \<mapsto> ''Confirm''],
         ''fr'' \<mapsto> [''greeting'' \<mapsto> ''Bonjour {name} !'', ''buttons.cancel'' \<mapsto> ''Annuler'']],
      debounceMap = Map.empty, debounceDelay = 100, timers = Map.empty, next_timer = 0,
      console = [Loaded ''en.json'', Loaded ''fr.json'']\<rparr>"
  by (simp add: test_defs)

subsection \<open>Loading\<close>

lemma loadFile_failure:
  assumes "read_file env (separator s) filename = Inl err"
  shows "loadFile env filename s =
     s\<lparr>languages := (languages s)(basename env filename := None),
       console := console s @ [LoadError filename err]\<rparr>"
  using assms by (simp add: loadFile_def console_log_def)

lemma loadFile_frame:
  "timers (loadFile env filename s) = timers s"
  "debounceMap (loadFile env filename s) = debounceMap s"
  "next_timer (loadFile env filename s) = next_timer s"
  "debounceDelay (loadFile env filename s) = debounceDelay s"
  "separator (loadFile env filename s) = separator s"
  by (simp_all add: loadFile_def console_log_def split: sum.splits)

lemma loadFile_languages_other:
  "locale \<noteq> basename env filename \<Longrightarrow> languages (loadFile env filename s) locale = languages s locale"
  by (simp add: loadFile_def console_log_def split: sum.splits)

lemma load_files_append:
  "load_files env (files @ rest) s = load_files env rest (load_files env files s)"
  by (induction files arbitrary: s) simp_all

text \<open>
  Claim C1, as the code has it. When the text of a file does not parse, \<open>_loadFile\<close>
  removes the entry of the file's locale from the table and leaves the entries of all
  other locales as they are; the loop over the directory goes on with the files behind
  it.
\<close>

theorem failed_reload_evicts:
  assumes "readFileSync env filename = Inr raw" and "JSON_parse env raw = Inl err"
  shows "languages (loadFile env filename s) (basename env filename) = None \<and>
     (\<forall>locale. locale \<noteq> basename env filename \<longrightarrow>
        languages (loadFile env filename s) locale = languages s locale) \<and>
     (endsWith filename ''.json'' \<longrightarrow>
        load_files env (files @ filename # rest) s =
          load_files env rest (loadFile env filename (load_files env files s)))"
proof -
  from assms have "read_file env (separator s) filename = Inl err"
    by (simp add: read_file_def)
  then have "languages (loadFile env filename s) (basename env filename) = None"
    by (simp add: loadFile_failure)
  then show ?thesis
    by (simp add: loadFile_languages_other load_files_append)
qed

lemma broken_read: "readFileSync broken_dir ''en.json'' = Inr ''{\"greeting\":''"
  by (simp add: broken_dir_def)

lemma broken_parse: "JSON_parse broken_dir ''{\"greeting\":'' = Inl SyntaxError"
  by (simp add: test_defs)

lemma broken_basename: "basename broken_dir ''en.json'' = ''en''" "basename broken_dir ''fr.json'' = ''fr''"
  by (simp_all add: test_defs)

theorem failed_reload_evicts_witness:
  "readFileSync broken_dir ''en.json'' = Inr ''{\"greeting\":'' \<and>
   JSON_parse broken_dir ''{\"greeting\":'' = Inl SyntaxError \<and>
   endsWith ''en.json'' ''.json'' \<and>
   languages (loadFile broken_dir ''en.json'' test_manager) ''en'' = None \<and>
   languages (loadFile broken_dir ''en.json'' test_manager) ''fr'' = languages test_manager ''fr'' \<and>
   load_files broken_dir ([] @ ''en.json'' # [''fr.json'']) test_manager =
     load_files broken_dir [''fr.json''] (loadFile broken_dir ''en.json'' (load_files broken_dir [] test_manager))"
proof -
  have ends: "endsWith ''en.json'' ''.json''"
    by (simp add: endsWith_def)
  have other: "''fr'' \<noteq> basename broken_dir ''en.json''"
    by (simp add: broken_basename)
  from failed_reload_evicts [OF broken_read broken_parse, of test_manager "[]" "[''fr.json'']"]
    ends other
  have "languages (loadFile broken_dir ''en.json'' test_manager) (basename broken_dir ''en.json'') = None \<and>
     languages (loadFile broken_dir ''en.json'' test_manager) ''fr'' = languages test_manager ''fr'' \<and>
     load_files broken_dir ([] @ ''en.json'' # [''fr.json'']) test_manager =
       load_files broken_dir [''fr.json''] (loadFile broken_dir ''en.json'' (load_files broken_dir [] test_manager))"
    by blast
  with broken_read broken_parse ends show ?thesis
    by (simp add: broken_basename)
qed

theorem failed_reload_evicts_counterexample:
  "languages test_manager ''en'' \<noteq> None \<and>
   readFileSync broken_dir ''en.json'' = Inr ''{\"greeting\":'' \<and>
   JSON_parse broken_dir ''{\"greeting\":'' = Inl SyntaxError \<and>
   languages (loadFile broken_dir ''en.json'' test_manager) ''en'' \<noteq> languages test_manager ''en''"
proof -
  have "read_file broken_dir (separator test_manager) ''en.json'' = Inl SyntaxError"
    by (simp add: read_file_def broken_read broken_parse)
  then have "languages (loadFile broken_dir ''en.json'' test_manager) ''en'' = None"
    by (simp add: loadFile_failure broken_basename)
  then show ?thesis
    by (simp add: test_manager_en broken_read broken_parse)
qed

subsection \<open>Timers\<close>

lemma on_watch_json:
  assumes "filename \<noteq> []" and "endsWith filename ''.json''"
  shows "on_watch now event (Some filename) s =
     s\<lparr>timers := (case debounceMap s filename of None \<Rightarrow> timers s | Some i \<Rightarrow> (timers s)(i := None))
                  (next_timer s \<mapsto> (now + debounceDelay s, event, filename)),
       next_timer := Suc (next_timer s),
       debounceMap := (debounceMap s)(filename \<mapsto> next_timer s)\<rparr>"
  using assms
  by (simp add: on_watch_def setTimeout_def clearTimeout_def split: option.splits)

lemma on_watch_other:
  "\<not> (filename \<noteq> [] \<and> endsWith filename ''.json'') \<Longrightarrow> on_watch now event (Some filename) s = s"
  "on_watch now event None s = s"
  by (auto simp: on_watch_def)

lemma registered_on_watch:
  assumes "registered s"
  shows "registered (on_watch now event filename s)"
proof (cases filename)
  case None
  with assms show ?thesis
    by (simp add: on_watch_other)
next
  case (Some fn)
  show ?thesis
  proof (cases "fn \<noteq> [] \<and> endsWith fn ''.json''")
    case False
    with Some assms show ?thesis
      by (simp add: on_watch_other)
  next
    case True
    then have eq: "on_watch now event (Some fn) s =
       s\<lparr>timers := (case debounceMap s fn of None \<Rightarrow> timers s | Some i \<Rightarrow> (timers s)(i := None))
                  (next_timer s \<mapsto> (now + debounceDelay s, event, fn)),
       next_timer := Suc (next_timer s),
       debounceMap := (debounceMap s)(fn \<mapsto> next_timer s)\<rparr>"
      by (simp add: on_watch_json)
    show ?thesis
      unfolding Some eq registered_def
    proof (intro allI impI)
      fix i due ev f
      assume a: "timers (s\<lparr>timers := (case debounceMap s fn of None \<Rightarrow> timers s | Some i \<Rightarrow> (timers s)(i := None))
                  (next_timer s \<mapsto> (now + debounceDelay s, event, fn)),
            next_timer := Suc (next_timer s),
            debounceMap := (debounceMap s)(fn \<mapsto> next_timer s)\<rparr>) i = Some (due, ev, f)"
      show "debounceMap (s\<lparr>timers := (case debounceMap s fn of None \<Rightarrow> timers s | Some i \<Rightarrow> (timers s)(i := None))
                  (next_timer s \<mapsto> (now + debounceDelay s, event, fn)),
            next_timer := Suc (next_timer s),
            debounceMap := (debounceMap s)(fn \<mapsto> next_timer s)\<rparr>) f = Some i \<and>
          i < next_timer (s\<lparr>timers := (case debounceMap s fn of None \<Rightarrow> timers s | Some i \<Rightarrow> (timers s)(i := None))
                  (next_timer s \<mapsto> (now + debounceDelay s, event, fn)),
            next_timer := Suc (next_timer s),
            debounceMap := (debounceMap s)(fn \<mapsto> next_timer s)\<rparr>)"
      proof (cases "i = next_timer s")
        case True
        with a show ?thesis
          by simp
      next
        case False
        with a have old: "timers s i = Some (due, ev, f)"
          by (simp split: option.splits if_splits)
        with assms have reg: "debounceMap s f = Some i" "i < next_timer s"
          by (simp_all add: registered_def)
        have "f \<noteq> fn"
        proof
          assume "f = fn"
          with reg a False show False
            by simp
        qed
        with reg show ?thesis
          by simp
      qed
    qed
  qed
qed

lemma registered_loadFile: "registered (loadFile env filename s) \<longleftrightarrow> registered s"
  by (simp add: registered_def loadFile_frame)

lemma registered_console_log: "registered (console_log l s) \<longleftrightarrow> registered s"
  by (simp add: registered_def console_log_def)

lemma registered_languages: "registered (s\<lparr>languages := m\<rparr>) \<longleftrightarrow> registered s"
  by (simp add: registered_def)

lemma registered_fire:
  assumes "registered s" and "fire env now i s = Some s'"
  shows "registered s'"
proof -
  from assms(2) obtain due event filename where t: "timers s i = Some (due, event, filename)"
    and s': "s' = on_timeout env event filename (clearTimeout i s)"
    by (auto simp: fire_def split: option.splits if_splits)
  let ?s = "(clearTimeout i s)\<lparr>debounceMap := (debounceMap (clearTimeout i s))(filename := None)\<rparr>"
  have "registered ?s"
    unfolding registered_def
  proof (intro allI impI)
    fix j due' ev f
    assume "timers ?s j = Some (due', ev, f)"
    then have j: "j \<noteq> i" "timers s j = Some (due', ev, f)"
      by (simp_all add: clearTimeout_def split: if_splits)
    with assms(1) have r: "debounceMap s f = Some j" "j < next_timer s"
      by (simp_all add: registered_def)
    from assms(1) t have "debounceMap s filename = Some i"
      by (simp add: registered_def)
    with r j have "f \<noteq> filename"
      by auto
    with r show "debounceMap ?s f = Some j \<and> j < next_timer ?s"
      by (simp add: clearTimeout_def)
  qed
  then have "registered (on_timeout env event filename (clearTimeout i s))"
    by (simp add: on_timeout_def Let_def registered_loadFile registered_console_log
          registered_languages split: sum.splits)
  with s' show ?thesis
    by simp
qed

lemma registered_initial: "registered (initial sep)"
  by (simp add: registered_def initial_def)

subsection \<open>Firing\<close>

lemma fire_pending:
  assumes "timers s i = Some (due, event, filename)"
  shows "fire env now i s =
     (if now < due then None else Some (on_timeout env event filename (clearTimeout i s)))"
  using assms by (simp add: fire_def)

lemma fire_absent: "timers s i = None \<Longrightarrow> fire env now i s = None"
  by (simp add: fire_def)

lemma on_timeout_frame:
  "timers (on_timeout env event filename s) = timers s"
  "next_timer (on_timeout env event filename s) = next_timer s"
  "debounceMap (on_timeout env event filename s) = (debounceMap s)(filename := None)"
  by (simp_all add: on_timeout_def Let_def loadFile_frame console_log_def split: sum.splits)

lemma on_timeout_not_found:
  assumes "statSync env filename = Inl err" and "err_code err = Some ''ENOENT''"
  shows "languages (on_timeout env event filename s) =
     (if event = ''rename'' then (languages s)(basename env filename := None) else languages s)"
  using assms by (simp add: on_timeout_def Let_def console_log_def)

lemma en_json_name: "''en.json'' \<noteq> []" "endsWith ''en.json'' ''.json''"
  by (simp_all add: endsWith_def)

lemma watched_timer:
  "timers (on_watch t event (Some ''en.json'') test_manager) 0 = Some (t + 100, event, ''en.json'')"
  by (simp add: on_watch_json [OF en_json_name] test_manager_eq)

lemma watched_languages:
  "languages (on_watch t event (Some ''en.json'') test_manager) = languages test_manager"
  by (simp add: on_watch_json [OF en_json_name])

lemma deleted_stat: "statSync deleted_dir ''en.json'' = Inl (SystemError ''ENOENT'')"
  by (simp add: deleted_dir_def)

lemma deleted_basename: "basename deleted_dir ''en.json'' = ''en''"
  by (simp add: test_defs)

subsection \<open>Debouncing\<close>

lemma on_watch_fields:
  assumes "filename \<noteq> []" and "endsWith filename ''.json''"
  shows "timers (on_watch now event (Some filename) s) =
       (case debounceMap s filename of None \<Rightarrow> timers s | Some i \<Rightarrow> (timers s)(i := None))
         (next_timer s \<mapsto> (now + debounceDelay s, event, filename))"
    and "next_timer (on_watch now event (Some filename) s) = Suc (next_timer s)"
    and "debounceMap (on_watch now event (Some filename) s) = (debounceMap s)(filename \<mapsto> next_timer s)"
    and "debounceDelay (on_watch now event (Some filename) s) = debounceDelay s"
    and "languages (on_watch now event (Some filename) s) = languages s"
    and "separator (on_watch now event (Some filename) s) = separator s"
    and "console (on_watch now event (Some filename) s) = console s"
  by (simp_all add: on_watch_json [OF assms])

lemma on_timeout_present:
  assumes "statSync env filename = Inr ()" and "event = ''change'' \<or> event = ''rename''"
  shows "on_timeout env event filename s =
     loadFile env filename
       (console_log (if event = ''change'' then DebouncedReload filename else DebouncedNew filename)
          (s\<lparr>debounceMap := (debounceMap s)(filename := None)\<rparr>))"
  using assms by (auto simp: on_timeout_def Let_def)

lemma loadFile_success:
  assumes "read_file env (separator s) filename = Inr flat"
  shows "loadFile env filename s =
     s\<lparr>languages := (languages s)(basename env filename \<mapsto> flat),
       console := console s @ [Loaded filename]\<rparr>"
  using assms by (simp add: loadFile_def console_log_def)

lemma registered_load_files: "registered s \<Longrightarrow> registered (load_files env files s)"
  by (induction files arbitrary: s) (simp_all add: registered_loadFile)

lemma registered_loadLanguages: "registered s \<Longrightarrow> registered (loadLanguages env s)"
  by (simp add: loadLanguages_def registered_load_files registered_console_log split: sum.splits)

lemma reachable_registered: "reachable s \<Longrightarrow> registered s"
proof (induction rule: reachable.induct)
  case (constructed env dirPath sep s)
  then have "s = loadLanguages env (initial sep)"
    by (simp add: new_LanguageManager_def split: sum.splits if_splits)
  then show ?case
    by (simp add: registered_loadLanguages registered_initial)
next
  case (notified s now event filename)
  then show ?case
    by (simp add: registered_on_watch)
next
  case (fired s env now i s')
  then show ?case
    by (simp add: registered_fire)
qed

text \<open>
  Claim C6. Two notifications for one resource file, of either kind, the second less
  than the debounce delay after the first and with no timeout fired in between: the
  first timeout cannot have fired before the second notification, which cancels it and
  arms a new timeout with the full delay, the only one pending for the file. Once due,
  that timeout fires and leaves none pending for the file; with the file present, what
  it does is one reload: the console gets one report of the debounced event and one
  outcome of loading, and the table gets the flattened content of the file under the
  file's locale, or loses that entry when the file does not read or parse.
\<close>

theorem debounce_coalesces:
  assumes reach: "reachable s"
    and ext: "endsWith filename ''.json''"
    and kind: "event2 = ''change'' \<or> event2 = ''rename''"
    and within: "t1 \<le> t2" "t2 < t1 + debounceDelay s"
  shows "let s1 = on_watch t1 event1 (Some filename) s;
             s2 = on_watch t2 event2 (Some filename) s1;
             first = next_timer s;
             second = Suc (next_timer s);
             delay = debounceDelay s;
             report = (if event2 = ''change'' then DebouncedReload filename else DebouncedNew filename)
         in timers s1 first = Some (t1 + delay, event1, filename) \<and>
            (\<forall>env now. now \<le> t2 \<longrightarrow> fire env now first s1 = None) \<and>
            timers s2 first = None \<and>
            (\<forall>env now. fire env now first s2 = None) \<and>
            timers s2 second = Some (t2 + delay, event2, filename) \<and>
            (\<forall>i due event. timers s2 i = Some (due, event, filename) \<longrightarrow> i = second) \<and>
            (\<forall>env now. now < t2 + delay \<longrightarrow> fire env now second s2 = None) \<and>
            (\<forall>env now. t2 + delay \<le> now \<longrightarrow>
               (\<exists>s3. fire env now second s2 = Some s3 \<and>
                  (\<forall>i due event. timers s3 i \<noteq> Some (due, event, filename)) \<and>
                  debounceMap s3 filename = None \<and>
                  (statSync env filename = Inr () \<longrightarrow>
                     (\<forall>raw json flat. readFileSync env filename = Inr raw \<longrightarrow>
                        JSON_parse env raw = Inr json \<longrightarrow>
                        flatten json (separator s) [] = Inr flat \<longrightarrow>
                        languages s3 = (languages s)(basename env filename \<mapsto> flat) \<and>
                        console s3 = console s @ [report, Loaded filename]) \<and>
                     (\<forall>raw err. readFileSync env filename = Inr raw \<longrightarrow>
                        JSON_parse env raw = Inl err \<longrightarrow>
                        languages s3 = (languages s)(basename env filename := None) \<and>
                        console s3 = console s @ [report, LoadError filename err]) \<and>
                     (\<forall>err. readFileSync env filename = Inl err \<longrightarrow>
                        languages s3 = (languages s)(basename env filename := None) \<and>
                        console s3 = console s @ [report, LoadError filename err]))))"
proof -
  from reach have reg: "registered s"
    by (rule reachable_registered)
  from ext have "filename \<noteq> []"
    by (auto simp: endsWith_def)
  with ext have name: "filename \<noteq> []" "endsWith filename ''.json''"
    by simp_all
  define s1 where "s1 = on_watch t1 event1 (Some filename) s"
  define s2 where "s2 = on_watch t2 event2 (Some filename) s1"
  define n where "n = next_timer s"
  define delay where "delay = debounceDelay s"
  define report where
    "report = (if event2 = ''change'' then DebouncedReload filename else DebouncedNew filename)"
  define cleared where
    "cleared = (case debounceMap s filename of None \<Rightarrow> timers s | Some i \<Rightarrow> (timers s)(i := None))"
  have t1: "timers s1 = cleared(n \<mapsto> (t1 + delay, event1, filename))"
    and n1: "next_timer s1 = Suc n"
    and d1: "debounceMap s1 = (debounceMap s)(filename \<mapsto> n)"
    and delay1: "debounceDelay s1 = delay"
    and l1: "languages s1 = languages s" and sep1: "separator s1 = separator s"
    and c1: "console s1 = console s"
    unfolding s1_def n_def delay_def cleared_def
    by (simp_all only: on_watch_fields [OF name])
  have t2: "timers s2 = (cleared(n := None))(Suc n \<mapsto> (t2 + delay, event2, filename))"
    and l2: "languages s2 = languages s" and sep2: "separator s2 = separator s"
    and c2: "console s2 = console s"
    unfolding s2_def
    by (simp_all add: on_watch_fields [OF name] t1 n1 d1 delay1 l1 sep1 c1)
  have none_left: "cleared i \<noteq> Some (due, event, filename)" for i due event
  proof
    assume a: "cleared i = Some (due, event, filename)"
    then have "timers s i = Some (due, event, filename)"
      by (auto simp: cleared_def split: option.splits if_splits)
    with reg have "debounceMap s filename = Some i"
      by (simp add: registered_def)
    with a show False
      by (simp add: cleared_def)
  qed
  have first: "timers s1 n = Some (t1 + delay, event1, filename)"
    by (simp add: t1)
  have not_yet: "fire env now n s1 = None" if "now \<le> t2" for env now
    using that within(2) by (simp add: fire_pending [OF first] delay_def)
  have gone: "timers s2 n = None"
    by (simp add: t2)
  have second: "timers s2 (Suc n) = Some (t2 + delay, event2, filename)"
    by (simp add: t2)
  have only: "i = Suc n" if "timers s2 i = Some (due, event, filename)" for i due event
  proof (rule ccontr)
    assume "i \<noteq> Suc n"
    with that have "cleared i = Some (due, event, filename)"
      by (simp add: t2 split: if_splits)
    with none_left show False
      by blast
  qed
  have early: "fire env now (Suc n) s2 = None" if "now < t2 + delay" for env now
    using that by (simp add: fire_pending [OF second])
  have fired: "\<exists>s3. fire env now (Suc n) s2 = Some s3 \<and>
      (\<forall>i due event. timers s3 i \<noteq> Some (due, event, filename)) \<and>
      debounceMap s3 filename = None \<and>
      (statSync env filename = Inr () \<longrightarrow>
         (\<forall>raw json flat. readFileSync env filename = Inr raw \<longrightarrow>
            JSON_parse env raw = Inr json \<longrightarrow>
            flatten json (separator s) [] = Inr flat \<longrightarrow>
            languages s3 = (languages s)(basename env filename \<mapsto> flat) \<and>
            console s3 = console s @ [report, Loaded filename]) \<and>
         (\<forall>raw err. readFileSync env filename = Inr raw \<longrightarrow>
            JSON_parse env raw = Inl err \<longrightarrow>
            languages s3 = (languages s)(basename env filename := None) \<and>
            console s3 = console s @ [report, LoadError filename err]) \<and>
         (\<forall>err. readFileSync env filename = Inl err \<longrightarrow>
            languages s3 = (languages s)(basename env filename := None) \<and>
            console s3 = console s @ [report, LoadError filename err]))"
    if due: "t2 + delay \<le> now" for env now
  proof -
    let ?c = "clearTimeout (Suc n) s2"
    let ?s3 = "on_timeout env event2 filename ?c"
    from due have f: "fire env now (Suc n) s2 = Some ?s3"
      by (simp add: fire_pending [OF second])
    have "timers ?s3 = (timers s2)(Suc n := None)"
      by (simp add: on_timeout_frame clearTimeout_def)
    then have none: "timers ?s3 i \<noteq> Some (due, event, filename)" for i due event
      using only [of i due event] by auto
    have unmapped: "debounceMap ?s3 filename = None"
      by (simp add: on_timeout_frame)
    have loads: "(\<forall>raw json flat. readFileSync env filename = Inr raw \<longrightarrow>
            JSON_parse env raw = Inr json \<longrightarrow>
            flatten json (separator s) [] = Inr flat \<longrightarrow>
            languages ?s3 = (languages s)(basename env filename \<mapsto> flat) \<and>
            console ?s3 = console s @ [report, Loaded filename]) \<and>
         (\<forall>raw err. readFileSync env filename = Inr raw \<longrightarrow>
            JSON_parse env raw = Inl err \<longrightarrow>
            languages ?s3 = (languages s)(basename env filename := None) \<and>
            console ?s3 = console s @ [report, LoadError filename err]) \<and>
         (\<forall>err. readFileSync env filename = Inl err \<longrightarrow>
            languages ?s3 = (languages s)(basename env filename := None) \<and>
            console ?s3 = console s @ [report, LoadError filename err])"
      if present: "statSync env filename = Inr ()"
    proof -
      let ?s = "console_log report (?c\<lparr>debounceMap := (debounceMap ?c)(filename := None)\<rparr>)"
      have s3: "?s3 = loadFile env filename ?s"
        unfolding report_def by (rule on_timeout_present [OF present kind])
      have sep: "separator ?s = separator s" and lang: "languages ?s = languages s"
        and con: "console ?s = console s @ [report]"
        by (simp_all add: console_log_def clearTimeout_def sep2 l2 c2)
      have ok: "languages ?s3 = (languages s)(basename env filename \<mapsto> flat) \<and>
          console ?s3 = console s @ [report, Loaded filename]"
        if "readFileSync env filename = Inr raw" "JSON_parse env raw = Inr json"
          "flatten json (separator s) [] = Inr flat" for raw json flat
      proof -
        from that have "read_file env (separator ?s) filename = Inr flat"
          by (simp add: read_file_def sep)
        from loadFile_success [OF this] show ?thesis
          unfolding s3 by (simp add: lang con)
      qed
      have bad: "languages ?s3 = (languages s)(basename env filename := None) \<and>
          console ?s3 = console s @ [report, LoadError filename err]"
        if "read_file env (separator ?s) filename = Inl err" for err
        using loadFile_failure [OF that] unfolding s3 by (simp add: lang con)
      have "languages ?s3 = (languages s)(basename env filename := None) \<and>
          console ?s3 = console s @ [report, LoadError filename err]"
        if "readFileSync env filename = Inr raw" "JSON_parse env raw = Inl err" for raw err
        using that by (intro bad) (simp add: read_file_def)
      moreover have "languages ?s3 = (languages s)(basename env filename := None) \<and>
          console ?s3 = console s @ [report, LoadError filename err]"
        if "readFileSync env filename = Inl err" for err
        using that by (intro bad) (simp add: read_file_def)
      ultimately show ?thesis
        using ok by blast
    qed
    with f none unmapped show ?thesis
      by blast
  qed
  from first not_yet gone fire_absent [OF gone] second only early fired
  show ?thesis
    unfolding Let_def s1_def [symmetric] s2_def [symmetric] n_def [symmetric]
      delay_def [symmetric] report_def [symmetric]
    by blast
qed

lemma reachable_test_manager: "reachable test_manager"
proof -
  have "new_LanguageManager test_dir ''languages'' ''.'' = Inr test_manager"
    by (simp add: new_LanguageManager_def test_manager_def test_dir_def)
  then show ?thesis
    by (rule reachable.constructed)
qed

lemma changed_read: "readFileSync changed_dir ''en.json'' = Inr ''{\"greeting\":\"Hi {name}!\"}''"
  by (simp add: changed_dir_def)

lemma changed_parse:
  "JSON_parse changed_dir ''{\"greeting\":\"Hi {name}!\"}'' = Inr (Obj [(''greeting'', Str ''Hi {name}!'')])"
  by (simp add: changed_dir_def)

lemma changed_flat:
  "flatten (Obj [(''greeting'', Str ''Hi {name}!'')]) ''.'' [] = Inr [''greeting'' \<mapsto> ''Hi {name}!'']"
  by (simp add: flatten_def)

lemma changed_stat: "statSync changed_dir ''en.json'' = Inr ()"
  by (simp add: changed_dir_def test_dir_def)

lemma changed_basename: "basename changed_dir ''en.json'' = ''en''"
  by (simp add: changed_dir_def test_dir_def strip_json_def endsWith_def)

theorem debounce_coalesces_witness:
  "reachable test_manager \<and> endsWith ''en.json'' ''.json'' \<and>
   (0::nat) \<le> 50 \<and> 50 < 0 + debounceDelay test_manager \<and>
   statSync changed_dir ''en.json'' = Inr () \<and>
   languages test_manager ''en'' =
     Some [''greeting'' \<mapsto> ''Hello {name}!'', ''buttons.cancel'' \<mapsto> ''Cancel'',
           ''buttons.confirm'' \<mapsto> ''Confirm''] \<and>
   timers (on_watch 50 ''change'' (Some ''en.json'') (on_watch 0 ''rename'' (Some ''en.json'') test_manager)) 0 = None \<and>
   timers (on_watch 50 ''change'' (Some ''en.json'') (on_watch 0 ''rename'' (Some ''en.json'') test_manager)) 1 =
     Some (150, ''change'', ''en.json'') \<and>
   fire changed_dir 150 0
     (on_watch 50 ''change'' (Some ''en.json'') (on_watch 0 ''rename'' (Some ''en.json'') test_manager)) = None \<and>
   (\<exists>s3.
      fire changed_dir 150 1
        (on_watch 50 ''change'' (Some ''en.json'') (on_watch 0 ''rename'' (Some ''en.json'') test_manager)) = Some s3 \<and>
      console s3 = [Loaded ''en.json'', Loaded ''fr.json'', DebouncedReload ''en.json'', Loaded ''en.json''] \<and>
      languages s3 ''en'' = Some [''greeting'' \<mapsto> ''Hi {name}!''] \<and>
      languages s3 ''fr'' = languages test_manager ''fr'') \<and>
   (\<exists>s3.
      fire changed_dir 150 1
        (on_watch 50 ''rename'' (Some ''en.json'') (on_watch 0 ''change'' (Some ''en.json'') test_manager)) = Some s3 \<and>
      console s3 = [Loaded ''en.json'', Loaded ''fr.json'', DebouncedNew ''en.json'', Loaded ''en.json''] \<and>
      languages s3 ''en'' = Some [''greeting'' \<mapsto> ''Hi {name}!''])"
proof -
  let ?a = "on_watch 50 ''change'' (Some ''en.json'') (on_watch 0 ''rename'' (Some ''en.json'') test_manager)"
  let ?b = "on_watch 50 ''rename'' (Some ''en.json'') (on_watch 0 ''change'' (Some ''en.json'') test_manager)"
  have delay: "debounceDelay test_manager = 100" and nxt: "next_timer test_manager = 0"
    and con: "console test_manager = [Loaded ''en.json'', Loaded ''fr.json'']"
    and sep: "separator test_manager = ''.''"
    by (simp_all add: test_manager_eq)
  have within: "(0::nat) \<le> 50" "50 < 0 + debounceDelay test_manager"
    by (simp_all add: delay)
  have change: "''change'' = ''change'' \<or> ''change'' = ''rename''"
    and rename: "''rename'' = ''change'' \<or> ''rename'' = ''rename''"
    by simp_all
  note a = debounce_coalesces [OF reachable_test_manager en_json_name(2) change within,
      of "''rename''", unfolded Let_def delay nxt sep]
  note b = debounce_coalesces [OF reachable_test_manager en_json_name(2) rename within,
      of "''change''", unfolded Let_def delay nxt sep]
  from a have gone: "timers ?a 0 = None" and no_fire: "fire changed_dir 150 0 ?a = None"
    and armed: "timers ?a 1 = Some (150, ''change'', ''en.json'')"
    by simp_all
  from a [THEN conjunct2, THEN conjunct2, THEN conjunct2, THEN conjunct2, THEN conjunct2,
      THEN conjunct2, THEN conjunct2, rule_format, where env = changed_dir and now = 150, simplified]
    changed_stat changed_read changed_parse changed_flat
  obtain s3 where "fire changed_dir 150 (Suc 0) ?a = Some s3"
    and "languages s3 = (languages test_manager)(basename changed_dir ''en.json'' \<mapsto> [''greeting'' \<mapsto> ''Hi {name}!''])"
    and "console s3 = console test_manager @ [DebouncedReload ''en.json'', Loaded ''en.json'']"
    by blast
  then have run_a: "\<exists>s3. fire changed_dir 150 1 ?a = Some s3 \<and>
      console s3 = [Loaded ''en.json'', Loaded ''fr.json'', DebouncedReload ''en.json'', Loaded ''en.json''] \<and>
      languages s3 ''en'' = Some [''greeting'' \<mapsto> ''Hi {name}!''] \<and>
      languages s3 ''fr'' = languages test_manager ''fr''"
    by (simp add: con changed_basename)
  from b [THEN conjunct2, THEN conjunct2, THEN conjunct2, THEN conjunct2, THEN conjunct2,
      THEN conjunct2, THEN conjunct2, rule_format, where env = changed_dir and now = 150, simplified]
    changed_stat changed_read changed_parse changed_flat
  obtain s3 where "fire changed_dir 150 (Suc 0) ?b = Some s3"
    and "languages s3 = (languages test_manager)(basename changed_dir ''en.json'' \<mapsto> [''greeting'' \<mapsto> ''Hi {name}!''])"
    and "console s3 = console test_manager @ [DebouncedNew ''en.json'', Loaded ''en.json'']"
    by blast
  then have run_b: "\<exists>s3. fire changed_dir 150 1 ?b = Some s3 \<and>
      console s3 = [Loaded ''en.json'', Loaded ''fr.json'', DebouncedNew ''en.json'', Loaded ''en.json''] \<and>
      languages s3 ''en'' = Some [''greeting'' \<mapsto> ''Hi {name}!'']"
    by (simp add: con changed_basename)
  from gone no_fire armed within changed_stat reachable_test_manager en_json_name(2)
    test_manager_en run_a run_b
  show ?thesis
    by blast
qed

subsection \<open>A deletion reported by two events\<close>

text \<open>
  Claim C2, where the code departs from it. After \<open>en.json\<close> has been deleted, a
  timeout armed by a \<open>rename\<close> notification removes the entry of the locale when it
  fires. A timeout armed by \<open>change\<close> finds the file missing and leaves the entry in
  the table: the \<open>change\<close> branch relies on the \<open>rename\<close> event to remove it. When the
  \<open>change\<close> notification follows the \<open>rename\<close> notification within the delay, it
  cancels the timeout of the latter: the only timeout that fires is the one armed by
  \<open>change\<close>, and the entry of the deleted file stays in the table with no timeout
  pending.
\<close>

theorem deleted_file_entry_stays:
  "languages test_manager ''en'' \<noteq> None \<and>
   statSync deleted_dir ''en.json'' = Inl (SystemError ''ENOENT'') \<and>
   (\<exists>s'. fire deleted_dir 100 0 (on_watch 0 ''rename'' (Some ''en.json'') test_manager) = Some s' \<and>
      languages s' ''en'' = None) \<and>
   (\<exists>s'. fire deleted_dir 100 0 (on_watch 0 ''change'' (Some ''en.json'') test_manager) = Some s' \<and>
      languages s' ''en'' = languages test_manager ''en'') \<and>
   timers (on_watch 10 ''change'' (Some ''en.json'') (on_watch 0 ''rename'' (Some ''en.json'') test_manager)) 0 = None \<and>
   timers (on_watch 10 ''change'' (Some ''en.json'') (on_watch 0 ''rename'' (Some ''en.json'') test_manager)) 1 =
     Some (110, ''change'', ''en.json'') \<and>
   (\<exists>s'. fire deleted_dir 110 1
       (on_watch 10 ''change'' (Some ''en.json'') (on_watch 0 ''rename'' (Some ''en.json'') test_manager)) = Some s' \<and>
      timers s' = Map.empty \<and>
      languages s' ''en'' = languages test_manager ''en'')"
proof -
  let ?r = "on_watch 0 ''rename'' (Some ''en.json'') test_manager"
  let ?c = "on_watch 0 ''change'' (Some ''en.json'') test_manager"
  let ?s2 = "on_watch 10 ''change'' (Some ''en.json'') ?r"
  have r: "timers ?r 0 = Some (100, ''rename'', ''en.json'')"
    using watched_timer [of 0 "''rename''"] by simp
  have "fire deleted_dir 100 0 ?r = Some (on_timeout deleted_dir ''rename'' ''en.json'' (clearTimeout 0 ?r))"
    using fire_pending [OF r, of deleted_dir 100] by simp
  moreover have "languages (on_timeout deleted_dir ''rename'' ''en.json'' (clearTimeout 0 ?r)) ''en'' = None"
    by (simp add: on_timeout_not_found [OF deleted_stat] clearTimeout_def deleted_basename)
  ultimately have run_r: "\<exists>s'. fire deleted_dir 100 0 ?r = Some s' \<and> languages s' ''en'' = None"
    by blast
  have c: "timers ?c 0 = Some (100, ''change'', ''en.json'')"
    using watched_timer [of 0 "''change''"] by simp
  have "fire deleted_dir 100 0 ?c = Some (on_timeout deleted_dir ''change'' ''en.json'' (clearTimeout 0 ?c))"
    using fire_pending [OF c, of deleted_dir 100] by simp
  moreover have "languages (on_timeout deleted_dir ''change'' ''en.json'' (clearTimeout 0 ?c)) =
      languages test_manager"
    by (simp add: on_timeout_not_found [OF deleted_stat] clearTimeout_def watched_languages)
  ultimately have run_c: "\<exists>s'. fire deleted_dir 100 0 ?c = Some s' \<and>
      languages s' ''en'' = languages test_manager ''en''"
    by auto
  have t: "timers ?s2 = [1 \<mapsto> (110, ''change'', ''en.json'')]"
    by (simp add: on_watch_fields [OF en_json_name] test_manager_eq)
  then have armed: "timers ?s2 1 = Some (110, ''change'', ''en.json'')" and gone: "timers ?s2 0 = None"
    by simp_all
  have l: "languages ?s2 = languages test_manager"
    by (simp add: on_watch_fields [OF en_json_name])
  let ?s' = "on_timeout deleted_dir ''change'' ''en.json'' (clearTimeout 1 ?s2)"
  have "fire deleted_dir 110 1 ?s2 = Some ?s'"
    using fire_pending [OF armed, of deleted_dir 110] by simp
  moreover have "timers ?s' = Map.empty"
    by (simp add: on_timeout_frame clearTimeout_def t)
  moreover have "languages ?s' = languages test_manager"
    by (simp add: on_timeout_not_found [OF deleted_stat] clearTimeout_def l)
  ultimately have run_2: "\<exists>s'. fire deleted_dir 110 1 ?s2 = Some s' \<and> timers s' = Map.empty \<and>
      languages s' ''en'' = languages test_manager ''en''"
    by auto
  from test_manager_en have "languages test_manager ''en'' \<noteq> None"
    by simp
  with deleted_stat run_r run_c armed gone run_2 show ?thesis
    by blast
qed

end
